theory Spec2Isabelle
  imports Complex_Main "HOL-Library.Sublist"
begin

section \<open>JavaScript values\<close>

text \<open>
  The scripts are TypeScript running on Node.js.  A JavaScript string is modelled as a
  \<^typ>\<open>string\<close>: each \<^typ>\<open>char\<close> stands for one code unit (code units from 256 on are
  outside the model) and \<^const>\<open>length\<close> is the \<open>.length\<close> property.
  A field that the code tests against \<open>undefined\<close> or coerces with \<open>||\<close> has type
  \<open>'a js\<close>: it is \<open>undefined\<close> (also: absent), \<open>null\<close>, or a value of the declared type.
\<close>

datatype 'a js = Undefined | Null | Val 'a

text \<open>
  A JavaScript number is \<open>NaN\<close>, an infinity, or a finite value.  Finite values are exact
  reals: the rounding of IEEE doubles, overflow to an infinity and the sign of zero are
  outside the model.
\<close>

datatype number = NaN | Fin real | PosInf | NegInf

text \<open>The values \<open>Math.floor\<close> returns: \<open>NaN\<close>, an infinity, or an integer.\<close>

datatype floored = FNaN | FInt int | FPosInf | FNegInf

text \<open>Rounding towards zero, as the remainder operator \<open>%\<close> rounds its quotient.\<close>

definition trunc :: "real \<Rightarrow> int" where
  "trunc x = (if 0 \<le> x then \<lfloor>x\<rfloor> else \<lceil>x\<rceil>)"

text \<open>\<open>x / c\<close> and \<open>x % c\<close> for a finite constant \<open>c > 0\<close> (the code divides by constants only).\<close>

fun num_div :: "number \<Rightarrow> real \<Rightarrow> number" where
  "num_div NaN c = NaN"
| "num_div (Fin x) c = Fin (x / c)"
| "num_div PosInf c = PosInf"
| "num_div NegInf c = NegInf"

fun num_mod :: "number \<Rightarrow> real \<Rightarrow> number" where
  "num_mod (Fin x) c = Fin (x - c * of_int (trunc (x / c)))"
| "num_mod _ c = NaN"

fun num_add :: "number \<Rightarrow> number \<Rightarrow> number" where
  "num_add NaN _ = NaN"
| "num_add _ NaN = NaN"
| "num_add (Fin x) (Fin y) = Fin (x + y)"
| "num_add PosInf NegInf = NaN"
| "num_add NegInf PosInf = NaN"
| "num_add PosInf _ = PosInf"
| "num_add _ PosInf = PosInf"
| "num_add NegInf _ = NegInf"
| "num_add _ NegInf = NegInf"

text \<open>\<open>x > c\<close> for a finite constant \<open>c\<close>; every comparison with \<open>NaN\<close> is false.\<close>

fun num_gt :: "number \<Rightarrow> real \<Rightarrow> bool" where
  "num_gt (Fin x) c = (c < x)"
| "num_gt PosInf c = True"
| "num_gt _ c = False"

fun Math_floor :: "number \<Rightarrow> floored" where
  "Math_floor NaN = FNaN"
| "Math_floor (Fin x) = FInt \<lfloor>x\<rfloor>"
| "Math_floor PosInf = FPosInf"
| "Math_floor NegInf = FNegInf"

text \<open>\<open>h > 0\<close> on a value of \<open>Math.floor\<close>.\<close>

fun gt_zero :: "floored \<Rightarrow> bool" where
  "gt_zero (FInt i) = (0 < i)"
| "gt_zero FPosInf = True"
| "gt_zero _ = False"

subsection \<open>Numbers to strings\<close>

definition digit_char :: "nat \<Rightarrow> char" where
  "digit_char d = ''0123456789'' ! d"

fun dec_nat :: "nat \<Rightarrow> string" where
  "dec_nat n = (if n < 10 then [digit_char n] else dec_nat (n div 10) @ [digit_char (n mod 10)])"

declare dec_nat.simps [simp del]

text \<open>
  \<open>toString()\<close> and template interpolation of a value of \<open>Math.floor\<close>.  An integer is
  rendered by its decimal digits, which is what JavaScript prints for integers of
  magnitude below \<open>10^21\<close>; from there on JavaScript switches to exponent notation,
  which is not modelled.
\<close>

fun ToString :: "floored \<Rightarrow> string" where
  "ToString FNaN = ''NaN''"
| "ToString (FInt i) = (if i < 0 then CHR ''-'' # dec_nat (nat (- i)) else dec_nat (nat i))"
| "ToString FPosInf = ''Infinity''"
| "ToString FNegInf = ''-Infinity''"

text \<open>\<open>s.padStart(targetLength, fillString)\<close>\<close>

definition padStart :: "nat \<Rightarrow> string \<Rightarrow> string \<Rightarrow> string" where
  "padStart targetLength fillString s =
     (if targetLength \<le> length s \<or> fillString = [] then s
      else take (targetLength - length s)
             (concat (replicate (targetLength - length s) fillString)) @ s)"

section \<open>Timestamp formatting\<close>

text \<open>
  \<open>formatTimestamp\<close>, identical in \<open>scripts/youtube/transcript-to-markdown.ts\<close> and in the
  transcript API route:
  \<^verbatim>\<open>
  const h = Math.floor(seconds / 3600);
  const m = Math.floor((seconds % 3600) / 60);
  const s = Math.floor(seconds % 60);
  if (h > 0) return `${h}:${m.toString().padStart(2, '0')}:${s.toString().padStart(2, '0')}`;
  return `${m}:${s.toString().padStart(2, '0')}`;
  \<close>
\<close>

definition formatTimestamp :: "number \<Rightarrow> string" where
  "formatTimestamp seconds =
     (let h = Math_floor (num_div seconds 3600);
          m = Math_floor (num_div (num_mod seconds 3600) 60);
          s = Math_floor (num_mod seconds 60)
      in if gt_zero h
         then ToString h @ '':'' @ padStart 2 ''0'' (ToString m) @ '':'' @ padStart 2 ''0'' (ToString s)
         else ToString m @ '':'' @ padStart 2 ''0'' (ToString s))"

subsection \<open>Reading a rendered timestamp back\<close>

definition is_digit :: "char \<Rightarrow> bool" where
  "is_digit c = (c \<in> set ''0123456789'')"

definition digit_val :: "char \<Rightarrow> nat" where
  "digit_val c = of_char c - 48"

definition digits_value :: "string \<Rightarrow> nat" where
  "digits_value s = foldl (\<lambda>a c. 10 * a + digit_val c) 0 s"

text \<open>A decimal numeral without padding: digits only, and no leading zero but in \<open>0\<close> itself.\<close>

definition unpadded_decimal :: "string \<Rightarrow> bool" where
  "unpadded_decimal s = (s \<noteq> [] \<and> list_all is_digit s \<and> (length s = 1 \<or> hd s \<noteq> CHR ''0''))"

definition two_digits :: "string \<Rightarrow> bool" where
  "two_digits s = (length s = 2 \<and> list_all is_digit s)"

section \<open>Video identifier resolvers\<close>

text \<open>
  The regular expressions of the resolvers are translated by hand.  Both character
  classes are predicates on characters: \<open>[^&\n?#]\<close> is the complement of \<open>id_delim\<close> and
  \<open>[a-zA-Z0-9_-]\<close> is \<open>id_char\<close>.
\<close>

definition id_delim :: "char \<Rightarrow> bool" where
  "id_delim c = (c = CHR ''&'' \<or> c = CHR 0x0A \<or> c = CHR ''?'' \<or> c = CHR ''#'')"

definition id_char :: "char \<Rightarrow> bool" where
  "id_char c = (let n = (of_char c :: nat) in
     (97 \<le> n \<and> n \<le> 122) \<or> (65 \<le> n \<and> n \<le> 90) \<or> (48 \<le> n \<and> n \<le> 57)
     \<or> c = CHR ''_'' \<or> c = CHR ''-'')"

text \<open>
  \<open>String.prototype.match\<close> with a pattern that has no \<open>^\<close>: the pattern is tried at every
  position from the left (the empty rest included), and the first position where it
  matches wins.  The argument \<open>m\<close> matches the pattern at the start of its input and
  returns the first capture group.
\<close>

fun regex_search :: "(string \<Rightarrow> 'a option) \<Rightarrow> string \<Rightarrow> 'a option" where
  "regex_search m [] = m []"
| "regex_search m (c # cs) = (case m (c # cs) of Some r \<Rightarrow> Some r | None \<Rightarrow> regex_search m cs)"

text \<open>
  A pattern \<open>(?:lit1|lit2|...)(capture)\<close> at the start of \<open>s\<close>: the alternatives are tried
  in order, and when the capture fails behind one alternative the next one is tried.
\<close>

fun match_alternatives :: "string list \<Rightarrow> (string \<Rightarrow> 'a option) \<Rightarrow> string \<Rightarrow> 'a option" where
  "match_alternatives [] capture s = None"
| "match_alternatives (lit # lits) capture s =
     (if prefix lit s
      then (case capture (drop (length lit) s) of
              Some r \<Rightarrow> Some r
            | None \<Rightarrow> match_alternatives lits capture s)
      else match_alternatives lits capture s)"

text \<open>The capture groups \<open>([^&\n?#]+)\<close> (greedy, at least one character) and
  \<open>([a-zA-Z0-9_-]{11})\<close>.\<close>

definition capture_until_delim :: "string \<Rightarrow> string option" where
  "capture_until_delim s =
     (let c = takeWhile (\<lambda>x. \<not> id_delim x) s in if c = [] then None else Some c)"

definition capture_id11 :: "string \<Rightarrow> string option" where
  "capture_id11 s =
     (if 11 \<le> length s \<and> list_all id_char (take 11 s) then Some (take 11 s) else None)"

text \<open>
  \<open>extractVideoId\<close> of \<open>scripts/youtube/transcript-to-markdown.ts\<close> and of the transcript API
  route (the two copies are identical); \<open>null\<close> is \<open>None\<close>:
  \<^verbatim>\<open>
  const patterns = [
    /(?:youtube\.com\/watch\?v=|youtu\.be\/|youtube\.com\/embed\/)([^&\n?#]+)/,
    /^([a-zA-Z0-9_-]{11})$/,
  ];
  for (const pattern of patterns) {
    const match = url.match(pattern);
    if (match) return match[1];
  }
  return null;
  \<close>
\<close>

definition url_prefixes :: "string list" where
  "url_prefixes = [''youtube.com/watch?v='', ''youtu.be/'', ''youtube.com/embed/'']"

definition url_pattern :: "string \<Rightarrow> string option" where
  "url_pattern = regex_search (match_alternatives url_prefixes capture_until_delim)"

definition bare_id_pattern :: "string \<Rightarrow> string option" where
  "bare_id_pattern s = (if length s = 11 \<and> list_all id_char s then Some s else None)"

definition extractVideoId :: "string \<Rightarrow> string option" where
  "extractVideoId url =
     (case url_pattern url of
        Some v \<Rightarrow> Some v
      | None \<Rightarrow> bare_id_pattern url)"

text \<open>
  \<open>extractVideoId\<close> of the audio download script: the bare identifier is tested first,
  both URL patterns capture exactly eleven identifier characters, and an input that
  matches nothing throws.
  \<^verbatim>\<open>
  if (/^[a-zA-Z0-9_-]{11}$/.test(input)) return input;
  const patterns = [
    /(?:youtube\.com\/watch\?v=|youtu\.be\/)([a-zA-Z0-9_-]{11})/,
    /youtube\.com\/embed\/([a-zA-Z0-9_-]{11})/,
  ];
  for (const pattern of patterns) { const match = input.match(pattern); if (match) return match[1]; }
  throw new Error(`Invalid YouTube URL or video ID: ${input}`);
  \<close>
\<close>

datatype download_error = InvalidInput string

definition download_pattern1 :: "string \<Rightarrow> string option" where
  "download_pattern1 = regex_search (match_alternatives [''youtube.com/watch?v='', ''youtu.be/''] capture_id11)"

definition download_pattern2 :: "string \<Rightarrow> string option" where
  "download_pattern2 = regex_search (match_alternatives [''youtube.com/embed/''] capture_id11)"

definition extractVideoId_download :: "string \<Rightarrow> download_error + string" where
  "extractVideoId_download input =
     (if bare_id_pattern input \<noteq> None then Inr input
      else (case download_pattern1 input of
              Some v \<Rightarrow> Inr v
            | None \<Rightarrow>
               (case download_pattern2 input of
                  Some v \<Rightarrow> Inr v
                | None \<Rightarrow> Inl (InvalidInput input))))"


subsection \<open>Where a URL form sits in an input\<close>

text \<open>
  The definitions of this subsection are not taken from the source: they say where the
  URL prefixes of the patterns occur in an input.  \<open>occurs_at_start lits t\<close>: one of the literals
  \<open>lits\<close> is a prefix of \<open>t\<close>.  \<open>occurs_in lits s\<close>: one of them occurs somewhere in \<open>s\<close>.
  \<open>first_occurrence lits p rest\<close>: in the input \<open>p @ rest\<close> none of them occurs at a
  position inside \<open>p\<close>, so that an occurrence at the start of \<open>rest\<close> is the first one of
  the input.
\<close>

definition occurs_at_start :: "string list \<Rightarrow> string \<Rightarrow> bool" where
  "occurs_at_start lits t = list_ex (\<lambda>lit. prefix lit t) lits"

definition occurs_in :: "string list \<Rightarrow> string \<Rightarrow> bool" where
  "occurs_in lits s = list_ex (occurs_at_start lits) (suffixes s)"

definition first_occurrence :: "string list \<Rightarrow> string \<Rightarrow> string \<Rightarrow> bool" where
  "first_occurrence lits p rest =
     list_all (\<lambda>p2. p2 = [] \<or> \<not> occurs_at_start lits (p2 @ rest)) (suffixes p)"

section \<open>Caption segments and the segment normalizer\<close>

text \<open>
  An element of the array that \<open>YoutubeTranscript.fetchTranscript\<close> returns, declared as
  \<open>{ text: string; offset: number; duration: number }\<close>.  The code guards against
  absent fields, so every field may also be \<open>undefined\<close> or \<open>null\<close>, and so may the
  element itself (\<open>RawItem js\<close>).
\<close>

record RawItem =
  raw_text :: "string js"
  raw_offset :: "number js"
  raw_duration :: "number js"

text \<open>An element of \<open>transcriptSegments\<close>: \<open>{ text, timestamp, duration }\<close>, in seconds.\<close>

record Segment =
  seg_text :: string
  seg_timestamp :: number
  seg_duration :: number

text \<open>The numeric coercion that \<open>/\<close> applies to its left operand.\<close>

fun ToNumber :: "number js \<Rightarrow> number" where
  "ToNumber Undefined = NaN"
| "ToNumber Null = Fin 0"
| "ToNumber (Val n) = n"

text \<open>\<open>item.text || ''\<close>: the text when it is a non-empty string, the empty string otherwise.\<close>

fun or_empty :: "string js \<Rightarrow> string" where
  "or_empty (Val s) = s"
| "or_empty _ = []"

text \<open>\<open>Array.prototype.join\<close> on strings.\<close>

fun join :: "string \<Rightarrow> string list \<Rightarrow> string" where
  "join sep [] = []"
| "join sep [x] = x"
| "join sep (x # y # ys) = x @ sep @ join sep (y # ys)"

text \<open>
  Step 2 of \<open>transcriptToMarkdown\<close> (\<open>scripts/youtube/transcript-to-markdown.ts\<close>):
  \<^verbatim>\<open>
  if (rawTranscript.length === 0) throw new Error('Transcript is empty. ...');
  const transcriptSegments = rawTranscript.map((item, index) => {
    if (!item || typeof item.offset === 'undefined' || typeof item.duration === 'undefined') {
      throw new Error(`Invalid transcript segment at index ${index}: ${JSON.stringify(item)}`);
    }
    return { text: item.text || '', timestamp: item.offset / 1000, duration: item.duration / 1000 };
  });
  if (transcriptSegments.length === 0) throw new Error('Failed to process transcript segments');
  const lastSegment = transcriptSegments[transcriptSegments.length - 1];
  const totalDuration = lastSegment.timestamp + lastSegment.duration;
  const fullTranscriptText = transcriptSegments
    .map(seg => `[${formatTimestamp(seg.timestamp)}] ${seg.text}`).join('\n');
  \<close>
  The errors are values; \<open>InvalidSegment\<close> carries the index and the offending element
  (the message interpolates both).  The check of \<open>lastSegment\<close> that follows in the source
  cannot fail (\<open>timestamp\<close> is the result of a division) and has no branch here.
\<close>

datatype script_error =
  TranscriptEmpty
  | InvalidSegment nat "RawItem js"
  | ProcessingFailed

definition to_segment :: "nat \<Rightarrow> RawItem js \<Rightarrow> script_error + Segment" where
  "to_segment index item =
     (case item of
        Val it \<Rightarrow>
          if raw_offset it = Undefined \<or> raw_duration it = Undefined
          then Inl (InvalidSegment index item)
          else Inr \<lparr> seg_text = or_empty (raw_text it),
                     seg_timestamp = num_div (ToNumber (raw_offset it)) 1000,
                     seg_duration = num_div (ToNumber (raw_duration it)) 1000 \<rparr>
      | _ \<Rightarrow> Inl (InvalidSegment index item))"

fun map_segments :: "nat \<Rightarrow> RawItem js list \<Rightarrow> script_error + Segment list" where
  "map_segments index [] = Inr []"
| "map_segments index (item # rest) =
     (case to_segment index item of
        Inl e \<Rightarrow> Inl e
      | Inr s \<Rightarrow>
         (case map_segments (Suc index) rest of
            Inl e \<Rightarrow> Inl e
          | Inr ss \<Rightarrow> Inr (s # ss)))"

record Processed =
  transcriptSegments :: "Segment list"
  totalDuration :: number
  fullTranscriptText :: string

definition processSegments :: "RawItem js list \<Rightarrow> script_error + Processed" where
  "processSegments rawTranscript =
     (if rawTranscript = [] then Inl TranscriptEmpty
      else case map_segments 0 rawTranscript of
        Inl e \<Rightarrow> Inl e
      | Inr segs \<Rightarrow>
          if segs = [] then Inl ProcessingFailed
          else let lastSegment = last segs
               in Inr \<lparr> transcriptSegments = segs,
                         totalDuration = num_add (seg_timestamp lastSegment) (seg_duration lastSegment),
                         fullTranscriptText =
                           join [CHR 0x0A]
                             (map (\<lambda>seg. ''['' @ formatTimestamp (seg_timestamp seg) @ ''] '' @ seg_text seg) segs) \<rparr>)"


text \<open>The condition under which the \<open>map\<close> callback does not throw.\<close>

definition has_offset_and_duration :: "RawItem js \<Rightarrow> bool" where
  "has_offset_and_duration item =
     (case item of
        Val it \<Rightarrow> raw_offset it \<noteq> Undefined \<and> raw_duration it \<noteq> Undefined
      | _ \<Rightarrow> False)"

section \<open>The caption fetcher of the transcript API route\<close>

text \<open>
  \<open>String.prototype.trim\<close>: white space and line terminators are removed at both ends.
  Of these, the code units below 256 are tab, line feed, vertical tab, form feed,
  carriage return, space and no-break space.
\<close>

definition is_space :: "char \<Rightarrow> bool" where
  "is_space c = (let n = (of_char c :: nat) in
     n = 9 \<or> n = 10 \<or> n = 11 \<or> n = 12 \<or> n = 13 \<or> n = 32 \<or> n = 160)"

definition trim :: "string \<Rightarrow> string" where
  "trim s = rev (dropWhile is_space (rev (dropWhile is_space s)))"

text \<open>
  One call of \<open>YoutubeTranscript.fetchTranscript\<close> either throws an error (kept as its
  message) or returns a value, expected to be an array of segments.  The service is a
  parameter of the model: a function from the requested language (\<open>None\<close> when the call
  passes no language) to the outcome of the call.
\<close>

datatype fetch_outcome = Throws string | Returns "RawItem js list js"

text \<open>
  \<open>rawTranscript.map(item => item.text)\<close>: reading \<open>text\<close> of an \<open>undefined\<close> or \<open>null\<close>
  element throws a \<open>TypeError\<close> (with the message Node.js gives it).
\<close>

fun item_texts :: "RawItem js list \<Rightarrow> string + string js list" where
  "item_texts [] = Inr []"
| "item_texts (Undefined # rest) =
     Inl (''Cannot read properties of undefined (reading '' @ [CHR 0x27] @ ''text'' @ [CHR 0x27] @ '')'')"
| "item_texts (Null # rest) =
     Inl (''Cannot read properties of null (reading '' @ [CHR 0x27] @ ''text'' @ [CHR 0x27] @ '')'')"
| "item_texts (Val it # rest) =
     (case item_texts rest of
        Inl e \<Rightarrow> Inl e
      | Inr ts \<Rightarrow> Inr (raw_text it # ts))"

text \<open>\<open>Array.prototype.join\<close> renders an \<open>undefined\<close> or \<open>null\<close> element as the empty string.\<close>

fun element_string :: "string js \<Rightarrow> string" where
  "element_string Undefined = []"
| "element_string Null = []"
| "element_string (Val s) = s"

text \<open>
  The variables of the loop, and the languages requested so far (\<open>calls\<close>, which the
  source does not keep: it records the calls made to the service, in order).
  \<open>lastError\<close> is the message of the last error caught.
\<close>

record fetch_state =
  transcriptText :: string
  lastError :: "string option"
  calls :: "string option list"

text \<open>\<open>lang ? fetchTranscript(videoId, { lang }) : fetchTranscript(videoId)\<close>\<close>

fun request_of :: "string js \<Rightarrow> string option" where
  "request_of (Val l) = (if l \<noteq> [] then Some l else None)"
| "request_of _ = None"

text \<open>
  The body of the loop; the flag tells whether it reached \<open>break\<close>.
  \<^verbatim>\<open>
  try {
    const rawTranscript = lang
      ? await YoutubeTranscript.fetchTranscript(videoId, { lang })
      : await YoutubeTranscript.fetchTranscript(videoId);
    if (!rawTranscript || rawTranscript.length === 0) throw new Error('Transcript is empty');
    transcriptText = rawTranscript.map(item => item.text).join(' ');
    if (!transcriptText || transcriptText.trim().length < 50)
      throw new Error('Transcript is too short');
    break; // Success, exit loop
  } catch (error: any) {
    lastError = error;
    continue; // Try next language
  }
  \<close>
\<close>

definition attempt ::
  "(string option \<Rightarrow> fetch_outcome) \<Rightarrow> string js \<Rightarrow> fetch_state \<Rightarrow> fetch_state \<times> bool" where
  "attempt fetchTranscript lang st =
     (let st1 = st\<lparr>calls := calls st @ [request_of lang]\<rparr>
      in case fetchTranscript (request_of lang) of
           Throws msg \<Rightarrow> (st1\<lparr>lastError := Some msg\<rparr>, False)
         | Returns rawTranscript \<Rightarrow>
            (case rawTranscript of
               Val items \<Rightarrow>
                 if items = [] then (st1\<lparr>lastError := Some ''Transcript is empty''\<rparr>, False)
                 else (case item_texts items of
                         Inl msg \<Rightarrow> (st1\<lparr>lastError := Some msg\<rparr>, False)
                       | Inr texts \<Rightarrow>
                           let t = join '' '' (map element_string texts);
                               st2 = st1\<lparr>transcriptText := t\<rparr>
                           in if t = [] \<or> length (trim t) < 50
                              then (st2\<lparr>lastError := Some ''Transcript is too short''\<rparr>, False)
                              else (st2, True))
             | _ \<Rightarrow> (st1\<lparr>lastError := Some ''Transcript is empty''\<rparr>, False)))"

text \<open>\<open>for (const lang of languageCodes) { ... }\<close>\<close>

fun language_loop ::
  "(string option \<Rightarrow> fetch_outcome) \<Rightarrow> string js list \<Rightarrow> fetch_state \<Rightarrow> fetch_state" where
  "language_loop fetchTranscript [] st = st"
| "language_loop fetchTranscript (lang # langs) st =
     (case attempt fetchTranscript lang st of
        (st', True) \<Rightarrow> st'
      | (st', False) \<Rightarrow> language_loop fetchTranscript langs st')"

text \<open>\<open>const languageCodes = ['en', 'en-US', 'en-GB', undefined];\<close>\<close>

definition languageCodes :: "string js list" where
  "languageCodes = [Val ''en'', Val ''en-US'', Val ''en-GB'', Undefined]"

text \<open>
  Step 1 of the route's \<open>POST\<close> handler: the loop, then
  \<^verbatim>\<open>
  if (!transcriptText || transcriptText.trim().length < 50) {
    const errorMsg = lastError?.message || 'Unknown error';
    throw new Error(`Failed to fetch transcript. The video may not have captions available. Last error: ${errorMsg}`);
  }
  \<close>
  The result is the list of calls made and either the thrown message or the transcript
  text handed to the formatter.
\<close>

definition fetch_captions ::
  "(string option \<Rightarrow> fetch_outcome) \<Rightarrow> string option list \<times> (string + string)" where
  "fetch_captions fetchTranscript =
     (let st = language_loop fetchTranscript languageCodes
                 \<lparr>transcriptText = [], lastError = None, calls = []\<rparr>
      in (calls st,
          if transcriptText st = [] \<or> length (trim (transcriptText st)) < 50
          then Inl (''Failed to fetch transcript. The video may not have captions available. Last error: ''
                    @ (case lastError st of
                         Some m \<Rightarrow> if m \<noteq> [] then m else ''Unknown error''
                       | None \<Rightarrow> ''Unknown error''))
          else Inr (transcriptText st)))"

subsection \<open>What the loop is compared with\<close>

text \<open>
  The definitions of this subsection are not taken from the source: they state, apart
  from the loop, which calls are expected and which candidate counts as usable.

  The requests in the order of \<open>languageCodes\<close>.
\<close>

definition requests :: "string option list" where
  "requests = [Some ''en'', Some ''en-US'', Some ''en-GB'', None]"

text \<open>
  The joined text of a candidate: the outcome is a non-empty sequence of segments, and
  their texts are joined with single spaces.
\<close>

definition candidate_text :: "fetch_outcome \<Rightarrow> string option" where
  "candidate_text outcome =
     (case outcome of
        Returns (Val items) \<Rightarrow>
          (if items = [] then None
           else case item_texts items of
                  Inr texts \<Rightarrow> Some (join '' '' (map element_string texts))
                | Inl e \<Rightarrow> None)
      | _ \<Rightarrow> None)"

text \<open>
  The acceptance criterion: the joined text, trimmed, has at least 50 characters.
\<close>

definition accepted :: "fetch_outcome \<Rightarrow> bool" where
  "accepted outcome =
     (case candidate_text outcome of
        Some t \<Rightarrow> 50 \<le> length (trim t)
      | None \<Rightarrow> False)"

text \<open>A service given by a table of outcomes, for the examples.\<close>

definition fetch_table ::
  "(string option \<times> fetch_outcome) list \<Rightarrow> fetch_outcome \<Rightarrow> string option \<Rightarrow> fetch_outcome" where
  "fetch_table tab dflt request = (case map_of tab request of Some r \<Rightarrow> r | None \<Rightarrow> dflt)"

text \<open>A caption track of one segment with the given text.\<close>

definition one_segment :: "string \<Rightarrow> fetch_outcome" where
  "one_segment t = Returns (Val [Val \<lparr>raw_text = Val t, raw_offset = Val (Fin 0), raw_duration = Val (Fin 1000)\<rparr>])"

text \<open>A caption track of two segments with the given texts.\<close>

definition two_segments :: "string \<Rightarrow> string \<Rightarrow> fetch_outcome" where
  "two_segments a b =
     Returns (Val [Val \<lparr>raw_text = Val a, raw_offset = Val (Fin 0), raw_duration = Val (Fin 1000)\<rparr>,
                   Val \<lparr>raw_text = Val b, raw_offset = Val (Fin 1000), raw_duration = Val (Fin 1000)\<rparr>])"

section \<open>The document formatter\<close>

text \<open>
  The JSON body of a \<open>generateContent\<close> answer, as far as the route reads it:
  \<open>data.error\<close>, and \<open>data.candidates[0]?.content?.parts\<close> with the \<open>text\<close> of each part.
  \<open>err_json\<close> stands for the text \<open>JSON.stringify\<close> gives for the error object.
\<close>

record Part =
  part_text :: "string js"

record Content =
  parts :: "Part list js"

record Candidate =
  content :: "Content js"

record ApiError =
  err_message :: "string js"
  err_json :: string

record GeminiData =
  data_error :: "ApiError js"
  candidates :: "Candidate js list js"

text \<open>
  The answer of the service.  When \<open>response.ok\<close> is false the route builds an error
  message from the status and the body and throws it; that branch is not unfolded here,
  \<open>NotOk\<close> carries the message thrown.  When \<open>response.ok\<close> holds, \<open>response.json()\<close> either
  throws (\<open>Inl\<close>, with the message) or yields the data.
\<close>

datatype http_response = NotOk string | Ok "string + GeminiData"

text \<open>
  The part of the file system the formatter touches: the directories made by
  \<open>fs.mkdir(dir, { recursive: true })\<close> and the files written by \<open>fs.writeFile\<close>, which
  replaces the content at its path.  Both calls are taken to succeed.
\<close>

record file_system =
  directories :: "string set"
  files :: "string \<rightharpoonup> string"

text \<open>
  \<open>process.cwd()\<close> and the functions of Node's \<open>path\<close> module, which are parameters of the
  model.
\<close>

record node_env =
  cwd :: string
  path_join :: "string list \<Rightarrow> string"
  path_dirname :: "string \<Rightarrow> string"

text \<open>\<open>Math.round\<close> on a finite number: to the nearest integer, a tie upwards.\<close>

definition Math_round :: "real \<Rightarrow> int" where
  "Math_round x = \<lfloor>x + 1 / 2\<rfloor>"

record route_success =
  videoId :: string
  outputPath :: string
  markdownLength :: nat
  estimatedWords :: int

text \<open>
  \<^verbatim>\<open>
  const textPart = data.candidates[0]?.content?.parts?.find(
    (part: any) => part.text !== undefined);
  \<close>
\<close>

definition first_text_part :: "GeminiData \<Rightarrow> Part option" where
  "first_text_part data =
     (case candidates data of
        Val (Val c # rest) \<Rightarrow>
          (case content c of
             Val ct \<Rightarrow>
               (case parts ct of
                  Val ps \<Rightarrow> find (\<lambda>part. part_text part \<noteq> Undefined) ps
                | _ \<Rightarrow> None)
           | _ \<Rightarrow> None)
      | _ \<Rightarrow> None)"

text \<open>
  Step 2 of the route's \<open>POST\<close> handler after the request was sent.  An error (\<open>Inl\<close>, the
  message) reaches the handler's \<open>catch\<close>, which answers with status 500.
  \<^verbatim>\<open>
  if (!response.ok) { ... throw new Error(errorMessage); }
  const data = await response.json();
  if (data.error) throw new Error(data.error.message || JSON.stringify(data.error));
  if (!data.candidates || data.candidates.length === 0)
    throw new Error('No candidates in Gemini response');
  const textPart = ...;
  if (!textPart || !textPart.text) throw new Error('No text response from Gemini');
  const markdownContent = textPart.text.trim();
  if (!markdownContent || markdownContent.length < 100)
    throw new Error('Received empty or very short markdown from Gemini');
  const outputDir = path.join(process.cwd(), 'youtube', videoId);
  await fs.mkdir(outputDir, { recursive: true });
  const outputPath = path.join(outputDir, 'transcript.md');
  await fs.writeFile(outputPath, markdownContent, 'utf-8');
  return NextResponse.json({ success: true, videoId,
    outputPath: `youtube/${videoId}/transcript.md`,
    stats: { markdownLength: markdownContent.length,
             estimatedWords: Math.round(markdownContent.length / 5) } });
  \<close>
\<close>

definition route_format ::
  "node_env \<Rightarrow> string \<Rightarrow> http_response \<Rightarrow> file_system \<Rightarrow> file_system \<times> (string + route_success)" where
  "route_format env vid response fs =
     (case response of
        NotOk msg \<Rightarrow> (fs, Inl msg)
      | Ok (Inl msg) \<Rightarrow> (fs, Inl msg)
      | Ok (Inr data) \<Rightarrow>
         (case data_error data of
            Val e \<Rightarrow>
              (fs, Inl (case err_message e of
                          Val m \<Rightarrow> if m \<noteq> [] then m else err_json e
                        | _ \<Rightarrow> err_json e))
          | _ \<Rightarrow>
            (case candidates data of
               Val cs \<Rightarrow>
                 if cs = [] then (fs, Inl ''No candidates in Gemini response'')
                 else
                   (case first_text_part data of
                      Some textPart \<Rightarrow>
                        (case part_text textPart of
                           Val t \<Rightarrow>
                             if t = [] then (fs, Inl ''No text response from Gemini'')
                             else
                               let markdownContent = trim t
                               in if markdownContent = [] \<or> length markdownContent < 100
                                  then (fs, Inl ''Received empty or very short markdown from Gemini'')
                                  else
                                    let outputDir = path_join env [cwd env, ''youtube'', vid];
                                        outputPath = path_join env [outputDir, ''transcript.md'']
                                    in (fs\<lparr>directories := insert outputDir (directories fs),
                                           files := (files fs)(outputPath \<mapsto> markdownContent)\<rparr>,
                                        Inr \<lparr>videoId = vid,
                                             outputPath = ''youtube/'' @ vid @ ''/transcript.md'',
                                             markdownLength = length markdownContent,
                                             estimatedWords =
                                               Math_round (real (length markdownContent) / 5)\<rparr>)
                         | _ \<Rightarrow> (fs, Inl ''No text response from Gemini''))
                    | None \<Rightarrow> (fs, Inl ''No text response from Gemini''))
             | _ \<Rightarrow> (fs, Inl ''No candidates in Gemini response''))))"

text \<open>
  Steps 3 and 4 of \<open>transcriptToMarkdown\<close> in the standalone script, after the prompt was
  built.  \<open>ai.models.generateContent\<close> either throws (\<open>Inl\<close>) or answers with
  \<open>response.text\<close>; the \<open>catch\<close> block logs and throws the error again.
  \<^verbatim>\<open>
  if (!response.text) throw new Error('No text response from Gemini');
  const markdownContent = response.text.trim();
  if (!markdownContent || markdownContent.length < 100)
    throw new Error('Received empty or very short markdown from Gemini');
  const defaultOutputPath = path.join(process.cwd(), 'youtube', videoId, 'transcript.md');
  const finalOutputPath = outputPath || defaultOutputPath;
  const outputDir = path.dirname(finalOutputPath);
  await fs.mkdir(outputDir, { recursive: true });
  await fs.writeFile(finalOutputPath, markdownContent, 'utf-8');
  \<close>
  The result on success is the path written.
\<close>

definition script_format ::
  "node_env \<Rightarrow> string \<Rightarrow> string js \<Rightarrow> string + string js \<Rightarrow> file_system
     \<Rightarrow> file_system \<times> (string + string)" where
  "script_format env vid outputPathArg response fs =
     (case response of
        Inl msg \<Rightarrow> (fs, Inl msg)
      | Inr (Val t) \<Rightarrow>
          if t = [] then (fs, Inl ''No text response from Gemini'')
          else
            let markdownContent = trim t
            in if markdownContent = [] \<or> length markdownContent < 100
               then (fs, Inl ''Received empty or very short markdown from Gemini'')
               else
                 let defaultOutputPath = path_join env [cwd env, ''youtube'', vid, ''transcript.md''];
                     finalOutputPath =
                       (case outputPathArg of
                          Val p \<Rightarrow> if p \<noteq> [] then p else defaultOutputPath
                        | _ \<Rightarrow> defaultOutputPath);
                     outputDir = path_dirname env finalOutputPath
                 in (fs\<lparr>directories := insert outputDir (directories fs),
                        files := (files fs)(finalOutputPath \<mapsto> markdownContent)\<rparr>,
                     Inr finalOutputPath)
      | Inr _ \<Rightarrow> (fs, Inl ''No text response from Gemini''))"

text \<open>Paths joined with a slash and never normalized, for the examples.\<close>

definition example_env :: node_env where
  "example_env = \<lparr>cwd = ''/srv/app'', path_join = join ''/'', path_dirname = (\<lambda>p. ''/tmp'')\<rparr>"

text \<open>An answer whose first candidate holds one part with the given text.\<close>

definition answer_with_text :: "string \<Rightarrow> http_response" where
  "answer_with_text t =
     Ok (Inr \<lparr>data_error = Undefined,
              candidates = Val [Val \<lparr>content = Val \<lparr>parts = Val [\<lparr>part_text = Val t\<rparr>]\<rparr>\<rparr>]\<rparr>)"

definition empty_fs :: file_system where
  "empty_fs = \<lparr>directories = {}, files = Map.empty\<rparr>"

section \<open>The batch transcription client\<close>

subsection \<open>Routing by file size\<close>

type_synonym bytes = "char list"

text \<open>
  What \<open>transcribeAudio\<close> and \<open>uploadToGCS\<close> ask of the world, as parameters: the status of
  the request for the bucket, the outcome of creating the bucket and of the upload
  (\<open>None\<close> when the response is \<open>ok\<close>, otherwise the response text), \<open>Date.now()\<close>,
  \<open>path.basename\<close> and \<open>Buffer.toString('base64')\<close>.
\<close>

record audio_env =
  bucket_status :: nat
  create_failure :: "string option"
  upload_failure :: "string option"
  date_now :: nat
  path_basename :: "string \<Rightarrow> string"
  base64 :: "bytes \<Rightarrow> string"

text \<open>The calls made, in order: the observable trace of a run.\<close>

datatype action =
  StatFile string
  | ReadFile string
  | GetBucket string
  | CreateBucket string string
  | UploadObject string string bytes
  | PostBatchRecognize string
  | PostRecognize string

text \<open>
  \<open>uploadToGCS(audioFile, projectId, accessToken)\<close>: the bucket is requested and created
  when the answer is 404, then the file is read and uploaded; the result is the
  \<open>gs://\<close> URI.
  \<^verbatim>\<open>
  const bucketName = `${projectId}-speech-transcripts`;
  const fileName = `transcripts/${Date.now()}-${path.basename(audioFile)}`;
  const gcsUri = `gs://${bucketName}/${fileName}`;
  const checkResponse = await fetch(bucketUrl, ...);
  if (checkResponse.status === 404) {
    const createResponse = await fetch(..., { method: 'POST', ... });
    if (!createResponse.ok) throw new Error(`Failed to create bucket: ${error}`);
  }
  const audioContent = await fs.readFile(audioFile);
  const uploadResponse = await fetch(uploadUrl, { method: 'POST', ..., body: audioContent });
  if (!uploadResponse.ok) throw new Error(`Failed to upload to GCS: ${error}`);
  return gcsUri;
  \<close>
\<close>

definition uploadToGCS ::
  "audio_env \<Rightarrow> string \<Rightarrow> string \<Rightarrow> bytes \<Rightarrow> action list \<times> (string + string)" where
  "uploadToGCS env audioFile projectId fileContent =
     (let bucketName = projectId @ ''-speech-transcripts'';
          fileName = ''transcripts/'' @ dec_nat (date_now env) @ ''-'' @ path_basename env audioFile;
          gcsUri = ''gs://'' @ bucketName @ ''/'' @ fileName;
          checked = (if bucket_status env = 404
                     then [GetBucket bucketName, CreateBucket projectId bucketName]
                     else [GetBucket bucketName])
      in if bucket_status env = 404 \<and> create_failure env \<noteq> None
         then (checked, Inl (''Failed to create bucket: '' @ the (create_failure env)))
         else
           (case upload_failure env of
              Some error \<Rightarrow>
                (checked @ [ReadFile audioFile, UploadObject bucketName fileName fileContent],
                 Inl (''Failed to upload to GCS: '' @ error))
            | None \<Rightarrow>
                (checked @ [ReadFile audioFile, UploadObject bucketName fileName fileContent],
                 Inr gcsUri)))"

datatype submission = RecognizeRequest string | BatchRecognizeRequest string

text \<open>
  \<open>transcribeAudio\<close> from the size check to the request it posts.  \<open>stats.size\<close> is the
  length of the file.  The inline request carries the content in base64, the batch
  request the URI of the uploaded object.
  \<^verbatim>\<open>
  const stats = await fs.stat(audioFile);
  const fileSizeMB = stats.size / (1024 * 1024);
  let audioUri: string | undefined;
  let audioContent: Buffer | undefined;
  // Use GCS for files > 10MB (API limit)
  if (fileSizeMB > 10) {
    audioUri = await uploadToGCS(audioFile, projectId, accessToken);
  } else {
    audioContent = await fs.readFile(audioFile);
  }
  if (audioUri) { ... files: [{ uri: audioUri }] ... }
  else { const audioBase64 = audioContent!.toString('base64'); ... content: audioBase64 ... }
  \<close>
  When \<open>audioUri\<close> is the empty string, the \<open>else\<close> branch reads \<open>toString\<close> of the
  undefined \<open>audioContent\<close>, which throws.
\<close>

definition submit_audio ::
  "audio_env \<Rightarrow> string \<Rightarrow> string \<Rightarrow> bytes \<Rightarrow> action list \<times> (string + submission)" where
  "submit_audio env audioFile projectId fileContent =
     (let fileSizeMB = num_div (Fin (real (length fileContent))) (1024 * 1024)
      in if num_gt fileSizeMB 10
         then
           (case uploadToGCS env audioFile projectId fileContent of
              (tr, Inl error) \<Rightarrow> (StatFile audioFile # tr, Inl error)
            | (tr, Inr audioUri) \<Rightarrow>
                if audioUri \<noteq> []
                then (StatFile audioFile # tr @ [PostBatchRecognize audioUri],
                      Inr (BatchRecognizeRequest audioUri))
                else (StatFile audioFile # tr,
                      Inl (''Cannot read properties of undefined (reading ''
                           @ [CHR 0x27] @ ''toString'' @ [CHR 0x27] @ '')'')))
         else
           (let audioBase64 = base64 env fileContent
            in ([StatFile audioFile, ReadFile audioFile, PostRecognize audioBase64],
                Inr (RecognizeRequest audioBase64))))"

text \<open>An environment in which the bucket exists and the upload succeeds, for the examples.\<close>

definition example_audio_env :: audio_env where
  "example_audio_env =
     \<lparr>bucket_status = 200, create_failure = None, upload_failure = None,
      date_now = 1700000000000, path_basename = (\<lambda>p. ''audio.mp3''), base64 = (\<lambda>b. ''QUJD'')\<rparr>"

subsection \<open>Parsing numbers\<close>

fun negate :: "number \<Rightarrow> number" where
  "negate NaN = NaN"
| "negate (Fin x) = Fin (- x)"
| "negate PosInf = NegInf"
| "negate NegInf = PosInf"

text \<open>
  The grammar \<open>StrDecimalLiteral\<close> of ECMAScript, which \<open>parseFloat\<close> and \<open>Number\<close> share:
  an optional sign, then \<open>Infinity\<close> or decimal digits with an optional fraction (at least
  one digit before or after the point) and an optional exponent.  A scanner returns the
  value of the longest prefix that fits and the rest of the input.
\<close>

definition scan_exponent :: "string \<Rightarrow> (int \<times> string) option" where
  "scan_exponent s =
     (if s \<noteq> [] \<and> (hd s = CHR ''e'' \<or> hd s = CHR ''E'')
      then (let r = tl s;
                signed = (r \<noteq> [] \<and> (hd r = CHR ''+'' \<or> hd r = CHR ''-''));
                d = (if signed then tl r else r)
            in if d \<noteq> [] \<and> is_digit (hd d)
               then Some ((if signed \<and> hd r = CHR ''-'' then - 1 else 1)
                            * int (digits_value (takeWhile is_digit d)),
                          dropWhile is_digit d)
               else None)
      else None)"

definition scan_unsigned :: "string \<Rightarrow> (number \<times> string) option" where
  "scan_unsigned s =
     (if prefix ''Infinity'' s then Some (PosInf, drop 8 s)
      else
        let ip = takeWhile is_digit s;
            r1 = dropWhile is_digit s;
            has_dot = (r1 \<noteq> [] \<and> hd r1 = CHR ''.'');
            fp = (if has_dot then takeWhile is_digit (tl r1) else []);
            r2 = (if has_dot then dropWhile is_digit (tl r1) else r1)
        in if ip = [] \<and> fp = [] then None
           else
             let mantissa = real (digits_value ip) + real (digits_value fp) / 10 ^ length fp
             in (case scan_exponent r2 of
                   Some (e, r3) \<Rightarrow>
                     Some (Fin (if 0 \<le> e then mantissa * 10 ^ nat e else mantissa / 10 ^ nat (- e)), r3)
                 | None \<Rightarrow> Some (Fin mantissa, r2)))"

definition scan_signed :: "string \<Rightarrow> (number \<times> string) option" where
  "scan_signed s =
     (if s \<noteq> [] \<and> hd s = CHR ''+'' then scan_unsigned (tl s)
      else if s \<noteq> [] \<and> hd s = CHR ''-''
      then (case scan_unsigned (tl s) of Some (v, r) \<Rightarrow> Some (negate v, r) | None \<Rightarrow> None)
      else scan_unsigned s)"

text \<open>\<open>parseFloat\<close>: leading white space is skipped, what follows the number is ignored.\<close>

definition parseFloat :: "string \<Rightarrow> number" where
  "parseFloat s = (case scan_signed (dropWhile is_space s) of Some (v, r) \<Rightarrow> v | None \<Rightarrow> NaN)"

text \<open>Digits in base 2, 8 or 16, for the literals \<open>0b\<close>, \<open>0o\<close> and \<open>0x\<close>.\<close>

definition radix_digit :: "char \<Rightarrow> nat option" where
  "radix_digit c = (let n = (of_char c :: nat) in
     if 48 \<le> n \<and> n \<le> 57 then Some (n - 48)
     else if 97 \<le> n \<and> n \<le> 102 then Some (n - 87)
     else if 65 \<le> n \<and> n \<le> 70 then Some (n - 55)
     else None)"

fun radix_value :: "nat \<Rightarrow> nat \<Rightarrow> string \<Rightarrow> nat option" where
  "radix_value base acc [] = Some acc"
| "radix_value base acc (c # cs) =
     (case radix_digit c of
        Some d \<Rightarrow> if d < base then radix_value base (base * acc + d) cs else None
      | None \<Rightarrow> None)"

text \<open>
  \<open>Number(s)\<close> on a string: the trimmed string must be a numeric literal as a whole;
  the empty string is 0.
\<close>

definition StringToNumber :: "string \<Rightarrow> number" where
  "StringToNumber s =
     (let t = trim s
      in if t = [] then Fin 0
         else if 2 < length t \<and> hd t = CHR ''0'' \<and> t ! 1 \<in> set ''xXoObB''
         then (case radix_value
                      (if t ! 1 \<in> set ''xX'' then 16 else if t ! 1 \<in> set ''oO'' then 8 else 2)
                      0 (drop 2 t) of
                 Some n \<Rightarrow> Fin (real n)
               | None \<Rightarrow> NaN)
         else (case scan_signed t of
                 Some (v, r) \<Rightarrow> if r = [] then v else NaN
               | None \<Rightarrow> NaN))"

subsection \<open>Recognition results\<close>

text \<open>
  A value of the \<open>seconds\<close> or \<open>nanos\<close> field of a structured offset.  The response is typed
  \<open>any\<close>; the fields are numbers or strings in the encodings of the service.
\<close>

datatype prim = PUndefined | PNull | PNum number | PStr string

fun truthy :: "prim \<Rightarrow> bool" where
  "truthy (PNum (Fin x)) = (x \<noteq> 0)"
| "truthy (PNum NaN) = False"
| "truthy (PNum PosInf) = True"
| "truthy (PNum NegInf) = True"
| "truthy (PStr s) = (s \<noteq> [])"
| "truthy PUndefined = False"
| "truthy PNull = False"

text \<open>\<open>Number(v || 0)\<close>\<close>

fun Number_prim :: "prim \<Rightarrow> number" where
  "Number_prim PUndefined = NaN"
| "Number_prim PNull = Fin 0"
| "Number_prim (PNum n) = n"
| "Number_prim (PStr s) = StringToNumber s"

definition or_zero :: "prim \<Rightarrow> prim" where
  "or_zero v = (if truthy v then v else PNum (Fin 0))"

text \<open>
  \<open>result.resultEndOffset\<close>: absent (\<open>undefined\<close> or \<open>null\<close>), a string such as \<open>9.250s\<close>,
  or an object with \<open>seconds\<close> and \<open>nanos\<close>.
\<close>

datatype EndOffset = NoOffset | OffsetString string | OffsetObject prim prim

text \<open>
  \<^verbatim>\<open>
  let endSecs = 0;
  if (result.resultEndOffset) {
    if (typeof result.resultEndOffset === 'string') {
      endSecs = parseFloat(result.resultEndOffset.replace('s', ''));
    } else {
      endSecs = Number(result.resultEndOffset.seconds || 0) +
               Number(result.resultEndOffset.nanos || 0) / 1e9;
    }
  }
  \<close>
  \<open>replace\<close> with a string pattern removes the first occurrence only; the empty string
  is falsy.
\<close>

fun end_secs :: "EndOffset \<Rightarrow> number" where
  "end_secs NoOffset = Fin 0"
| "end_secs (OffsetString s) =
     (if s = [] then Fin 0 else parseFloat (remove1 CHR ''s'' s))"
| "end_secs (OffsetObject seconds nanos) =
     num_add (Number_prim (or_zero seconds)) (num_div (Number_prim (or_zero nanos)) 1000000000)"

record Alternative =
  alt_transcript :: "string js"
  alt_confidence :: "number js"

record RecognitionResult =
  alternatives :: "Alternative js list js"
  resultEndOffset :: EndOffset

text \<open>The interface \<open>SegmentInfo\<close>: \<open>{ text, start, end, confidence }\<close>.\<close>

record SegmentInfo =
  si_text :: string
  si_start :: number
  si_end :: number
  si_confidence :: number

text \<open>\<open>result.alternatives?.[0]\<close>, \<open>None\<close> when it is falsy.\<close>

definition first_alternative :: "RecognitionResult \<Rightarrow> Alternative option" where
  "first_alternative result =
     (case alternatives result of
        Val (Val a # rest) \<Rightarrow> Some a
      | _ \<Rightarrow> None)"

text \<open>\<open>alternative.confidence || 0\<close>\<close>

fun confidence_or_zero :: "number js \<Rightarrow> number" where
  "confidence_or_zero (Val (Fin x)) = Fin x"
| "confidence_or_zero (Val PosInf) = PosInf"
| "confidence_or_zero (Val NegInf) = NegInf"
| "confidence_or_zero _ = Fin 0"

text \<open>The variables of the loop over the results.\<close>

record results_state =
  segments :: "SegmentInfo list"
  fullTranscript :: string
  lastEndTime :: number

text \<open>
  One pass of the loop in \<open>transcribeAudio\<close>:
  \<^verbatim>\<open>
  const alternative = result.alternatives?.[0];
  if (!alternative) continue;
  const text = alternative.transcript || '';
  fullTranscript += text + ' ';
  let endSecs = 0; ...
  segments.push({ text, start: lastEndTime, end: endSecs,
                  confidence: alternative.confidence || 0 });
  lastEndTime = endSecs;
  \<close>
\<close>

definition process_result :: "results_state \<Rightarrow> RecognitionResult \<Rightarrow> results_state" where
  "process_result st result =
     (case first_alternative result of
        None \<Rightarrow> st
      | Some alternative \<Rightarrow>
          let text = or_empty (alt_transcript alternative);
              endSecs = end_secs (resultEndOffset result)
          in \<lparr>segments = segments st @
                  [\<lparr>si_text = text, si_start = lastEndTime st, si_end = endSecs,
                    si_confidence = confidence_or_zero (alt_confidence alternative)\<rparr>],
              fullTranscript = fullTranscript st @ text @ '' '',
              lastEndTime = endSecs\<rparr>)"

text \<open>
  \<open>const segments = []; let fullTranscript = ''; let lastEndTime = 0;\<close> and the loop
  \<open>for (const result of response_data.results || [])\<close>.
\<close>

definition process_results :: "RecognitionResult list \<Rightarrow> results_state" where
  "process_results results =
     foldl process_result \<lparr>segments = [], fullTranscript = [], lastEndTime = Fin 0\<rparr> results"

text \<open>A result with one alternative and a string offset, for the examples.\<close>

definition result_ending :: "string \<Rightarrow> string \<Rightarrow> RecognitionResult" where
  "result_ending t off =
     \<lparr>alternatives = Val [Val \<lparr>alt_transcript = Val t, alt_confidence = Val (Fin (9 / 10))\<rparr>],
      resultEndOffset = OffsetString off\<rparr>"

section \<open>Properties of the decimal rendering\<close>

lemma digit_char_is_digit: "d < 10 \<Longrightarrow> is_digit (digit_char d)"
  unfolding is_digit_def digit_char_def
  by (auto simp: less_Suc_eq numeral_eq_Suc)

lemma digit_val_digit_char: "d < 10 \<Longrightarrow> digit_val (digit_char d) = d"
  unfolding digit_val_def digit_char_def
  by (auto simp: less_Suc_eq numeral_eq_Suc)

lemma digit_char_zero: "d < 10 \<Longrightarrow> digit_char d = CHR ''0'' \<longleftrightarrow> d = 0"
  unfolding digit_char_def
  by (auto simp: less_Suc_eq numeral_eq_Suc)

lemma dec_nat_digits: "list_all is_digit (dec_nat n)"
  by (induction n rule: dec_nat.induct) (subst dec_nat.simps, simp add: digit_char_is_digit)

lemma dec_nat_nonempty: "dec_nat n \<noteq> []"
  by (subst dec_nat.simps) simp

lemma digits_value_snoc: "digits_value (s @ [c]) = 10 * digits_value s + digit_val c"
  by (simp add: digits_value_def)

lemma digits_value_dec_nat: "digits_value (dec_nat n) = n"
proof (induction n rule: dec_nat.induct)
  case (1 n)
  show ?case
  proof (cases "n < 10")
    case True
    then show ?thesis by (subst dec_nat.simps) (simp add: digits_value_def digit_val_digit_char)
  next
    case False
    with 1 show ?thesis
      by (subst dec_nat.simps) (simp add: digits_value_snoc digit_val_digit_char)
  qed
qed

lemma hd_dec_nat: "hd (dec_nat n) = CHR ''0'' \<longleftrightarrow> n = 0"
proof (induction n rule: dec_nat.induct)
  case (1 n)
  show ?case
  proof (cases "n < 10")
    case True
    then show ?thesis by (subst dec_nat.simps) (simp add: digit_char_zero)
  next
    case False
    then have "n div 10 \<noteq> 0" by simp
    with False 1 show ?thesis
      by (subst dec_nat.simps) (simp add: dec_nat_nonempty)
  qed
qed

lemma length_dec_nat_small: "n < 10 \<Longrightarrow> length (dec_nat n) = 1"
  by (subst dec_nat.simps) simp

lemma length_dec_nat_two: "10 \<le> n \<Longrightarrow> n < 100 \<Longrightarrow> length (dec_nat n) = 2"
  by (subst dec_nat.simps) (simp add: length_dec_nat_small)

lemma unpadded_dec_nat: "unpadded_decimal (dec_nat n)"
proof (cases "n = 0")
  case True
  then show ?thesis
    by (simp add: unpadded_decimal_def dec_nat_nonempty dec_nat_digits length_dec_nat_small)
next
  case False
  then show ?thesis
    by (simp only: unpadded_decimal_def dec_nat_nonempty dec_nat_digits hd_dec_nat) simp
qed

lemma pad2_dec_nat:
  assumes "n < 60"
  shows "two_digits (padStart 2 ''0'' (dec_nat n)) \<and> digits_value (padStart 2 ''0'' (dec_nat n)) = n"
proof (cases "n < 10")
  case True
  then have "padStart 2 ''0'' (dec_nat n) = CHR ''0'' # dec_nat n"
    by (simp add: padStart_def length_dec_nat_small)
  moreover have "digits_value (CHR ''0'' # dec_nat n) = n"
  proof -
    have "dec_nat n = [digit_char n]" using True by (subst dec_nat.simps) simp
    then show ?thesis using True
      by (simp add: digits_value_def digit_val_digit_char) (simp add: digit_val_def)
  qed
  ultimately show ?thesis
    using True dec_nat_digits[of n]
    by (simp add: two_digits_def length_dec_nat_small is_digit_def)
next
  case False
  with assms have "length (dec_nat n) = 2" by (intro length_dec_nat_two) auto
  then have "padStart 2 ''0'' (dec_nat n) = dec_nat n"
    by (simp add: padStart_def)
  then show ?thesis
    using \<open>length (dec_nat n) = 2\<close> dec_nat_digits[of n]
    by (simp add: two_digits_def digits_value_dec_nat)
qed

section \<open>Timestamp formatting: hours, minutes and seconds\<close>

lemma hms_nonneg:
  assumes "0 \<le> r"
  shows "Math_floor (num_div (Fin r) 3600) = FInt (int (nat \<lfloor>r\<rfloor> div 3600))"
    and "Math_floor (num_div (num_mod (Fin r) 3600) 60) = FInt (int (nat \<lfloor>r\<rfloor> mod 3600 div 60))"
    and "Math_floor (num_mod (Fin r) 60) = FInt (int (nat \<lfloor>r\<rfloor> mod 60))"
proof -
  define n where "n = nat \<lfloor>r\<rfloor>"
  have fl: "\<lfloor>r\<rfloor> = int n" using assms by (simp add: n_def)
  have d: "\<lfloor>r / real_of_int k\<rfloor> = int n div k" if "0 \<le> k" for k
    using floor_divide_real_eq_div[OF that, of r] fl by simp
  have h: "\<lfloor>r / 3600\<rfloor> = int n div 3600" using d[of 3600] by simp
  have m: "\<lfloor>r / 60\<rfloor> = int n div 60" using d[of 60] by simp
  show "Math_floor (num_div (Fin r) 3600) = FInt (int (nat \<lfloor>r\<rfloor> div 3600))"
    using h by (simp add: n_def[symmetric] zdiv_int)
  have t1: "trunc (r / 3600) = int n div 3600" using assms h by (simp add: trunc_def)
  have t2: "trunc (r / 60) = int n div 60" using assms m by (simp add: trunc_def)
  have "\<lfloor>(r - 3600 * real_of_int (int n div 3600)) / 60\<rfloor>
      = \<lfloor>r - real_of_int (3600 * (int n div 3600))\<rfloor> div 60"
    using floor_divide_real_eq_div[of 60 "r - 3600 * real_of_int (int n div 3600)"] by simp
  also have "\<dots> = (int n - 3600 * (int n div 3600)) div 60"
    by (simp only: floor_diff_of_int fl)
  also have "\<dots> = int (n mod 3600 div 60)"
    by (simp add: zmod_int zdiv_int minus_mult_div_eq_mod)
  finally show "Math_floor (num_div (num_mod (Fin r) 3600) 60) = FInt (int (nat \<lfloor>r\<rfloor> mod 3600 div 60))"
    by (simp add: t1 n_def[symmetric])
  have "\<lfloor>r - 60 * real_of_int (int n div 60)\<rfloor> = \<lfloor>r - real_of_int (60 * (int n div 60))\<rfloor>"
    by simp
  also have "\<dots> = int n - 60 * (int n div 60)"
    by (simp only: floor_diff_of_int fl)
  also have "\<dots> = int (n mod 60)"
    by (simp add: zmod_int minus_mult_div_eq_mod)
  finally show "Math_floor (num_mod (Fin r) 60) = FInt (int (nat \<lfloor>r\<rfloor> mod 60))"
    by (simp add: t2 n_def[symmetric])
qed

text \<open>
  Claim C7.  For every finite seconds value \<open>r \<ge> 0\<close> the formatter renders \<open>M:SS\<close> when
  \<open>r\<close> is under one hour and \<open>H:MM:SS\<close> otherwise.  The leading unit is an unpadded decimal
  numeral, every later unit has exactly two digits and is below 60, and the units read
  back as the whole seconds of \<open>r\<close>.  45 seconds render as \<open>0:45\<close>, 125 as \<open>2:05\<close> and
  3725 as \<open>1:02:05\<close>.
\<close>

theorem formatTimestamp_shape:
  assumes "0 \<le> r"
  shows "(r < 3600 \<longrightarrow>
           (\<exists>M S. formatTimestamp (Fin r) = M @ '':'' @ S
                \<and> unpadded_decimal M \<and> two_digits S \<and> digits_value S < 60
                \<and> 60 * digits_value M + digits_value S = nat \<lfloor>r\<rfloor>))
       \<and> (3600 \<le> r \<longrightarrow>
           (\<exists>H M S. formatTimestamp (Fin r) = H @ '':'' @ M @ '':'' @ S
                \<and> unpadded_decimal H \<and> two_digits M \<and> two_digits S
                \<and> digits_value M < 60 \<and> digits_value S < 60
                \<and> 3600 * digits_value H + 60 * digits_value M + digits_value S = nat \<lfloor>r\<rfloor>))
       \<and> formatTimestamp (Fin 45) = ''0:45''
       \<and> formatTimestamp (Fin 125) = ''2:05''
       \<and> formatTimestamp (Fin 3725) = ''1:02:05''"
proof (intro conjI impI)
  define n where "n = nat \<lfloor>r\<rfloor>"
  define h where "h = n div 3600"
  define m where "m = n mod 3600 div 60"
  define s where "s = n mod 60"
  have m60: "m < 60" and s60: "s < 60" by (simp_all add: m_def s_def)
  have "n mod 3600 mod 60 = n mod 60"
    by (rule mod_mod_cancel) simp
  then have "60 * m + s = n mod 3600"
    unfolding m_def s_def by (metis mult_div_mod_eq)
  then have sum: "3600 * h + 60 * m + s = n"
    unfolding h_def by (simp add: add.assoc)
  have hv: "Math_floor (num_div (Fin r) 3600) = FInt (int h)"
    and mv: "Math_floor (num_div (num_mod (Fin r) 3600) 60) = FInt (int m)"
    and sv: "Math_floor (num_mod (Fin r) 60) = FInt (int s)"
    using hms_nonneg[OF assms] by (simp_all add: n_def h_def m_def s_def)
  note pm = pad2_dec_nat[OF m60] and ps = pad2_dec_nat[OF s60]
  {
    assume "r < 3600"
    with assms have "\<lfloor>r\<rfloor> < 3600" by (simp add: floor_less_iff)
    then have "n < 3600" unfolding n_def by linarith
    then have h0: "h = 0" by (simp add: h_def)
    have fmt: "formatTimestamp (Fin r) = dec_nat m @ '':'' @ padStart 2 ''0'' (dec_nat s)"
      unfolding formatTimestamp_def hv mv sv by (simp add: h0)
    have val: "60 * digits_value (dec_nat m) + digits_value (padStart 2 ''0'' (dec_nat s)) = nat \<lfloor>r\<rfloor>"
      using sum h0 ps by (simp add: digits_value_dec_nat n_def)
    have lt: "digits_value (padStart 2 ''0'' (dec_nat s)) < 60"
      using ps s60 by simp
    show "\<exists>M S. formatTimestamp (Fin r) = M @ '':'' @ S
                \<and> unpadded_decimal M \<and> two_digits S \<and> digits_value S < 60
                \<and> 60 * digits_value M + digits_value S = nat \<lfloor>r\<rfloor>"
      apply (rule exI[where x = "dec_nat m"])
      apply (rule exI[where x = "padStart 2 ''0'' (dec_nat s)"])
      apply (intro conjI fmt val lt unpadded_dec_nat conjunct1[OF ps])
      done
  }
  {
    assume "3600 \<le> r"
    then have "3600 \<le> \<lfloor>r\<rfloor>" by (simp add: le_floor_iff)
    then have "3600 \<le> n" unfolding n_def by linarith
    then have hpos: "0 < h" by (simp add: h_def div_greater_zero_iff)
    have fmt: "formatTimestamp (Fin r) =
        dec_nat h @ '':'' @ padStart 2 ''0'' (dec_nat m) @ '':'' @ padStart 2 ''0'' (dec_nat s)"
      unfolding formatTimestamp_def hv mv sv using hpos by simp
    have val: "3600 * digits_value (dec_nat h) + 60 * digits_value (padStart 2 ''0'' (dec_nat m))
        + digits_value (padStart 2 ''0'' (dec_nat s)) = nat \<lfloor>r\<rfloor>"
      using sum pm ps by (simp add: digits_value_dec_nat n_def)
    have ltm: "digits_value (padStart 2 ''0'' (dec_nat m)) < 60"
      using pm m60 by simp
    have lts: "digits_value (padStart 2 ''0'' (dec_nat s)) < 60"
      using ps s60 by simp
    show "\<exists>H M S. formatTimestamp (Fin r) = H @ '':'' @ M @ '':'' @ S
                \<and> unpadded_decimal H \<and> two_digits M \<and> two_digits S
                \<and> digits_value M < 60 \<and> digits_value S < 60
                \<and> 3600 * digits_value H + 60 * digits_value M + digits_value S = nat \<lfloor>r\<rfloor>"
      apply (rule exI[where x = "dec_nat h"])
      apply (rule exI[where x = "padStart 2 ''0'' (dec_nat m)"])
      apply (rule exI[where x = "padStart 2 ''0'' (dec_nat s)"])
      apply (intro conjI fmt val ltm lts unpadded_dec_nat conjunct1[OF ps] conjunct1[OF pm])
      done
  }
  show "formatTimestamp (Fin 45) = ''0:45''" by code_simp
  show "formatTimestamp (Fin 125) = ''2:05''" by code_simp
  show "formatTimestamp (Fin 3725) = ''1:02:05''" by code_simp
qed

theorem formatTimestamp_shape_witness:
  "(0::real) \<le> 125 \<and> (125::real) < 3600
   \<and> (\<exists>M S. formatTimestamp (Fin 125) = M @ '':'' @ S
          \<and> unpadded_decimal M \<and> two_digits S \<and> digits_value S < 60
          \<and> 60 * digits_value M + digits_value S = nat \<lfloor>125::real\<rfloor>)
   \<and> (0::real) \<le> 3725 \<and> (3600::real) \<le> 3725
   \<and> (\<exists>H M S. formatTimestamp (Fin 3725) = H @ '':'' @ M @ '':'' @ S
          \<and> unpadded_decimal H \<and> two_digits M \<and> two_digits S
          \<and> digits_value M < 60 \<and> digits_value S < 60
          \<and> 3600 * digits_value H + 60 * digits_value M + digits_value S = nat \<lfloor>3725::real\<rfloor>)"
proof -
  have a: "(0::real) \<le> 125" and b: "(125::real) < 3600" by simp_all
  have c: "(0::real) \<le> 3725" and d: "(3600::real) \<le> 3725" by simp_all
  note short = mp[OF conjunct1[OF formatTimestamp_shape[OF a]] b]
  note long = mp[OF conjunct1[OF conjunct2[OF formatTimestamp_shape[OF c]]] d]
  show ?thesis
    by (intro conjI a b c d short long)
qed

section \<open>Matching at the leftmost position\<close>

lemma regex_search_hit: "m s = Some v \<Longrightarrow> regex_search m s = Some v"
  by (cases s) simp_all

lemma regex_search_None:
  assumes "\<And>t. suffix t u \<Longrightarrow> m t = None"
  shows "regex_search m u = None"
  using assms by (induction u) (simp_all add: suffix_Cons)

lemma regex_search_leftmost:
  assumes "m t \<noteq> None"
  shows "\<exists>p' t' v. p @ t = p' @ t' \<and> length p' \<le> length p \<and> m t' = Some v
           \<and> regex_search m (p @ t) = Some v"
proof (induction p)
  case Nil
  from assms obtain v where "m t = Some v" by auto
  then show ?case using regex_search_hit[of m t v] by auto
next
  case (Cons c p)
  show ?case
  proof (cases "m (c # p @ t)")
    case (Some v)
    then have "(c # p) @ t = [] @ (c # p @ t) \<and> length ([]::string) \<le> length (c # p)
        \<and> m (c # p @ t) = Some v \<and> regex_search m ((c # p) @ t) = Some v"
      by simp
    then show ?thesis by blast
  next
    case None
    from Cons.IH obtain p' t' v where
      "p @ t = p' @ t'" "length p' \<le> length p" "m t' = Some v" "regex_search m (p @ t) = Some v"
      by blast
    with None have "(c # p) @ t = (c # p') @ t' \<and> length (c # p') \<le> length (c # p)
        \<and> m t' = Some v \<and> regex_search m ((c # p) @ t) = Some v"
      by simp
    then show ?thesis by blast
  qed
qed

lemma match_alternatives_SomeD:
  "match_alternatives lits cap s = Some v
   \<Longrightarrow> \<exists>lit\<in>set lits. prefix lit s \<and> cap (drop (length lit) s) = Some v"
  by (induction lits) (auto split: if_splits option.splits)

lemma id_char_not_delim: "id_char c \<Longrightarrow> \<not> id_delim c"
  by (auto simp: id_char_def id_delim_def Let_def)

lemma id_char_not_dot: "\<not> id_char CHR ''.''"
  by (simp add: id_char_def)

lemma takeWhile_id:
  assumes "\<forall>c\<in>set ID. id_char c" and "s = [] \<or> id_delim (hd s)"
  shows "takeWhile (\<lambda>x. \<not> id_delim x) (ID @ s) = ID"
proof -
  have "takeWhile (\<lambda>x. \<not> id_delim x) s = []"
    using assms(2) by (cases s) auto
  moreover have "takeWhile (\<lambda>x. \<not> id_delim x) (ID @ s) = ID @ takeWhile (\<lambda>x. \<not> id_delim x) s"
    using assms(1) by (intro takeWhile_append2) (simp add: id_char_not_delim)
  ultimately show ?thesis by simp
qed

lemma capture_until_delim_id:
  assumes "ID \<noteq> []" "\<forall>c\<in>set ID. id_char c" "s = [] \<or> id_delim (hd s)"
  shows "capture_until_delim (ID @ s) = Some ID"
  using assms by (simp add: capture_until_delim_def takeWhile_id)

lemma capture_id11_id:
  assumes "length ID = 11" "\<forall>c\<in>set ID. id_char c"
  shows "capture_id11 (ID @ s) = Some ID"
  using assms by (simp add: capture_id11_def list_all_iff)

lemma url_match_literals:
  assumes "cap r = Some v"
  shows "match_alternatives url_prefixes cap (''youtube.com/watch?v='' @ r) = Some v"
    and "match_alternatives url_prefixes cap (''youtu.be/'' @ r) = Some v"
    and "match_alternatives url_prefixes cap (''youtube.com/embed/'' @ r) = Some v"
  using assms by (simp_all add: url_prefixes_def)

lemma no_literal_in_id:
  assumes "\<forall>c\<in>set t. id_char c" and "\<forall>lit\<in>set lits. CHR ''.'' \<in> set lit"
  shows "match_alternatives lits cap t = None"
proof (rule ccontr)
  assume "match_alternatives lits cap t \<noteq> None"
  then obtain v where "match_alternatives lits cap t = Some v" by auto
  from match_alternatives_SomeD[OF this] obtain lit where "lit \<in> set lits" "prefix lit t" by auto
  with assms(2) have "CHR ''.'' \<in> set t" using set_mono_prefix by fastforce
  with assms(1) show False using id_char_not_dot by auto
qed

lemma search_id_None:
  assumes "\<forall>c\<in>set ID. id_char c" and "\<forall>lit\<in>set lits. CHR ''.'' \<in> set lit"
  shows "regex_search (match_alternatives lits cap) ID = None"
proof (rule regex_search_None)
  fix t assume "suffix t ID"
  then have "set t \<subseteq> set ID" by (rule set_mono_suffix)
  with assms(1) have "\<forall>c\<in>set t. id_char c" by auto
  then show "match_alternatives lits cap t = None" using assms(2) by (rule no_literal_in_id)
qed

lemma regex_search_skip:
  assumes "\<And>p2. suffix p2 p \<Longrightarrow> p2 \<noteq> [] \<Longrightarrow> m (p2 @ s) = None"
  shows "regex_search m (p @ s) = regex_search m s"
  using assms
proof (induction p)
  case Nil
  show ?case by simp
next
  case (Cons c p)
  have "m ((c # p) @ s) = None" by (rule Cons.prems) simp_all
  moreover have "regex_search m (p @ s) = regex_search m s"
    by (rule Cons.IH) (rule Cons.prems, simp_all add: suffix_Cons)
  ultimately show ?case by simp
qed

lemma no_occurrence_no_match:
  assumes "\<not> occurs_at_start lits t" and "set lits' \<subseteq> set lits"
  shows "match_alternatives lits' cap t = None"
proof (rule ccontr)
  assume "match_alternatives lits' cap t \<noteq> None"
  then obtain v where "match_alternatives lits' cap t = Some v" by auto
  from match_alternatives_SomeD[OF this] obtain lit where "lit \<in> set lits'" "prefix lit t" by auto
  with assms show False by (auto simp: occurs_at_start_def list_ex_iff)
qed

lemma first_occurrence_skip:
  assumes "first_occurrence lits p rest" and "set lits' \<subseteq> set lits"
  shows "regex_search (match_alternatives lits' cap) (p @ rest)
       = regex_search (match_alternatives lits' cap) rest"
proof (rule regex_search_skip)
  fix p2 assume "suffix p2 p" "p2 \<noteq> []"
  with assms(1) have "\<not> occurs_at_start lits (p2 @ rest)"
    by (auto simp: first_occurrence_def list_all_iff)
  then show "match_alternatives lits' cap (p2 @ rest) = None"
    using assms(2) by (rule no_occurrence_no_match)
qed

lemma not_occurs_in_search_None:
  assumes "\<not> occurs_in lits u" and "set lits' \<subseteq> set lits"
  shows "regex_search (match_alternatives lits' cap) u = None"
proof (rule regex_search_None)
  fix t assume "suffix t u"
  with assms(1) have "\<not> occurs_at_start lits t"
    by (auto simp: occurs_in_def list_ex_iff)
  then show "match_alternatives lits' cap t = None"
    using assms(2) by (rule no_occurrence_no_match)
qed

lemma url_pattern_form:
  assumes "lit \<in> set url_prefixes" and "first_occurrence url_prefixes p (lit @ r)"
    and "cap r = Some v"
  shows "regex_search (match_alternatives url_prefixes cap) (p @ lit @ r) = Some v"
proof -
  have "match_alternatives url_prefixes cap (lit @ r) = Some v"
    using assms(1) url_match_literals[of cap r v, OF assms(3)]
    by (auto simp only: url_prefixes_def set_simps insert_iff empty_iff)
  then have "regex_search (match_alternatives url_prefixes cap) (lit @ r) = Some v"
    by (rule regex_search_hit)
  then show ?thesis
    by (simp only: first_occurrence_skip[OF assms(2) subset_refl])
qed

lemma download_pattern1_form:
  assumes "lit \<in> set [''youtube.com/watch?v='', ''youtu.be/'']"
    and "first_occurrence url_prefixes p (lit @ r)" and "capture_id11 r = Some v"
  shows "download_pattern1 (p @ lit @ r) = Some v"
proof -
  have sub: "set [''youtube.com/watch?v='', ''youtu.be/''] \<subseteq> set url_prefixes"
    by (simp add: url_prefixes_def)
  have "match_alternatives [''youtube.com/watch?v='', ''youtu.be/''] capture_id11 (lit @ r) = Some v"
    using assms(1,3) by auto
  then have "regex_search (match_alternatives [''youtube.com/watch?v='', ''youtu.be/''] capture_id11) (lit @ r) = Some v"
    by (rule regex_search_hit)
  then show ?thesis
    by (simp only: download_pattern1_def first_occurrence_skip[OF assms(2) sub])
qed

lemma download_pattern2_form:
  assumes "first_occurrence url_prefixes p (''youtube.com/embed/'' @ r)" and "capture_id11 r = Some v"
  shows "download_pattern2 (p @ ''youtube.com/embed/'' @ r) = Some v"
proof -
  have sub: "set [''youtube.com/embed/''] \<subseteq> set url_prefixes"
    by (simp add: url_prefixes_def)
  have "match_alternatives [''youtube.com/embed/''] capture_id11 (''youtube.com/embed/'' @ r) = Some v"
    using assms(2) by simp
  then have "regex_search (match_alternatives [''youtube.com/embed/''] capture_id11) (''youtube.com/embed/'' @ r) = Some v"
    by (rule regex_search_hit)
  then show ?thesis
    by (simp only: download_pattern2_def first_occurrence_skip[OF assms(1) sub])
qed

lemma download_pattern1_embed:
  assumes "first_occurrence url_prefixes p (''youtube.com/embed/'' @ r)"
    and "\<not> occurs_in [''youtube.com/watch?v='', ''youtu.be/''] r"
  shows "download_pattern1 (p @ ''youtube.com/embed/'' @ r) = None"
proof -
  have sub: "set [''youtube.com/watch?v='', ''youtu.be/''] \<subseteq> set url_prefixes"
    by (simp add: url_prefixes_def)
  have "regex_search (match_alternatives [''youtube.com/watch?v='', ''youtu.be/''] capture_id11) r = None"
    using assms(2) by (rule not_occurs_in_search_None) simp
  then have "regex_search (match_alternatives [''youtube.com/watch?v='', ''youtu.be/''] capture_id11)
      (''youtube.com/embed/'' @ r) = None"
    by simp
  then show ?thesis
    by (simp only: download_pattern1_def first_occurrence_skip[OF assms(1) sub])
qed

text \<open>
  Claim C8, as stated, fails.  The input \<open>https://youtu.be/kCc8FmEb1nY/\<close> contains
  \<open>youtu.be/ID\<close> for the eleven character identifier \<open>ID = kCc8FmEb1nY\<close>, and the caption
  pipeline's resolver returns the twelve characters \<open>kCc8FmEb1nY/\<close> (its capture runs to
  the first of \<open>&\<close>, newline, \<open>?\<close>, \<open>#\<close>), while the download script's resolver returns
  \<open>ID\<close>.  The input \<open>https://www.youtube-nocookie.com/embed/kCc8FmEb1nY\<close> contains
  \<open>embed/ID\<close>, and the caption pipeline's resolver returns \<open>null\<close> for it and the download
  script's resolver throws (the patterns require \<open>youtube.com/embed/\<close>).
\<close>

theorem extractVideoId_forms_not_resolved:
  "extractVideoId ''https://youtu.be/kCc8FmEb1nY/'' = Some ''kCc8FmEb1nY/''
   \<and> extractVideoId_download ''https://youtu.be/kCc8FmEb1nY/'' = Inr ''kCc8FmEb1nY''
   \<and> extractVideoId ''https://www.youtube-nocookie.com/embed/kCc8FmEb1nY'' = None
   \<and> extractVideoId_download ''https://www.youtube-nocookie.com/embed/kCc8FmEb1nY''
       = Inl (InvalidInput ''https://www.youtube-nocookie.com/embed/kCc8FmEb1nY'')"
  by (intro conjI; code_simp)

text \<open>
  Claim C8, amended.  Let \<open>ID\<close> be eleven identifier characters.  The bare string \<open>ID\<close>
  resolves to \<open>ID\<close> in the caption pipeline's resolver and in the download script's
  resolver.  Take an input \<open>p @ form @ s\<close> where \<open>form\<close> is \<open>youtube.com/watch?v=ID\<close>,
  \<open>youtu.be/ID\<close> or \<open>youtube.com/embed/ID\<close> and where the prefix of \<open>form\<close> is the first
  occurrence of one of the three URL prefixes in the input.
  \<^item> The caption pipeline's resolver returns \<open>ID\<close> when \<open>ID\<close> ends the input or is followed
    by one of \<open>&\<close>, newline, \<open>?\<close>, \<open>#\<close>.
  \<^item> The download script's resolver returns \<open>ID\<close> for the \<open>watch\<close> and \<open>youtu.be\<close> forms
    whatever follows, and for the \<open>embed\<close> form when neither \<open>youtube.com/watch?v=\<close> nor
    \<open>youtu.be/\<close> occurs behind the \<open>embed\<close> prefix (its first pattern is tried on the
    whole input before the \<open>embed\<close> pattern).
\<close>

theorem extractVideoId_url_forms:
  assumes len: "length ID = 11" and ida: "\<forall>c\<in>set ID. id_char c"
  shows "(first_occurrence url_prefixes p (''youtube.com/watch?v='' @ ID @ s)
            \<and> (s = [] \<or> id_delim (hd s))
          \<longrightarrow> extractVideoId (p @ ''youtube.com/watch?v='' @ ID @ s) = Some ID)
       \<and> (first_occurrence url_prefixes p (''youtu.be/'' @ ID @ s)
            \<and> (s = [] \<or> id_delim (hd s))
          \<longrightarrow> extractVideoId (p @ ''youtu.be/'' @ ID @ s) = Some ID)
       \<and> (first_occurrence url_prefixes p (''youtube.com/embed/'' @ ID @ s)
            \<and> (s = [] \<or> id_delim (hd s))
          \<longrightarrow> extractVideoId (p @ ''youtube.com/embed/'' @ ID @ s) = Some ID)
       \<and> extractVideoId ID = Some ID
       \<and> (first_occurrence url_prefixes p (''youtube.com/watch?v='' @ ID @ s)
          \<longrightarrow> extractVideoId_download (p @ ''youtube.com/watch?v='' @ ID @ s) = Inr ID)
       \<and> (first_occurrence url_prefixes p (''youtu.be/'' @ ID @ s)
          \<longrightarrow> extractVideoId_download (p @ ''youtu.be/'' @ ID @ s) = Inr ID)
       \<and> (first_occurrence url_prefixes p (''youtube.com/embed/'' @ ID @ s)
            \<and> \<not> occurs_in [''youtube.com/watch?v='', ''youtu.be/''] (ID @ s)
          \<longrightarrow> extractVideoId_download (p @ ''youtube.com/embed/'' @ ID @ s) = Inr ID)
       \<and> extractVideoId_download ID = Inr ID"
proof -
  from len have ne: "ID \<noteq> []" by auto
  note cap11 = capture_id11_id[OF len ida, of s]
  have dots: "\<forall>lit\<in>set url_prefixes. CHR ''.'' \<in> set lit"
    by (simp add: url_prefixes_def)
  have bare: "bare_id_pattern ID = Some ID"
    using len ida by (simp add: bare_id_pattern_def list_all_iff)
  have caption: "extractVideoId (p @ lit @ ID @ s) = Some ID"
    if "lit \<in> set url_prefixes" "first_occurrence url_prefixes p (lit @ ID @ s)"
      "s = [] \<or> id_delim (hd s)" for lit
    by (simp only: extractVideoId_def url_pattern_def option.case
          url_pattern_form[of lit p "ID @ s" capture_until_delim ID, OF that(1,2)
            capture_until_delim_id[OF ne ida that(3)]])
  have c1: "first_occurrence url_prefixes p (''youtube.com/watch?v='' @ ID @ s)
            \<and> (s = [] \<or> id_delim (hd s))
          \<longrightarrow> extractVideoId (p @ ''youtube.com/watch?v='' @ ID @ s) = Some ID"
    using caption[of "''youtube.com/watch?v=''"] by (simp add: url_prefixes_def)
  have c2: "first_occurrence url_prefixes p (''youtu.be/'' @ ID @ s)
            \<and> (s = [] \<or> id_delim (hd s))
          \<longrightarrow> extractVideoId (p @ ''youtu.be/'' @ ID @ s) = Some ID"
    using caption[of "''youtu.be/''"] by (simp add: url_prefixes_def)
  have c3: "first_occurrence url_prefixes p (''youtube.com/embed/'' @ ID @ s)
            \<and> (s = [] \<or> id_delim (hd s))
          \<longrightarrow> extractVideoId (p @ ''youtube.com/embed/'' @ ID @ s) = Some ID"
    using caption[of "''youtube.com/embed/''"] by (simp add: url_prefixes_def)
  have c4: "extractVideoId ID = Some ID"
    by (simp add: extractVideoId_def url_pattern_def search_id_None[OF ida dots] bare)
  have long: "bare_id_pattern (p @ ''youtube.com/watch?v='' @ ID @ s) = None"
    "bare_id_pattern (p @ ''youtu.be/'' @ ID @ s) = None"
    "bare_id_pattern (p @ ''youtube.com/embed/'' @ ID @ s) = None"
    using len by (simp_all add: bare_id_pattern_def)
  have e1: "first_occurrence url_prefixes p (''youtube.com/watch?v='' @ ID @ s)
          \<longrightarrow> extractVideoId_download (p @ ''youtube.com/watch?v='' @ ID @ s) = Inr ID"
  proof
    assume "first_occurrence url_prefixes p (''youtube.com/watch?v='' @ ID @ s)"
    then have d: "download_pattern1 (p @ ''youtube.com/watch?v='' @ ID @ s) = Some ID"
      using cap11 by (intro download_pattern1_form) simp_all
    show "extractVideoId_download (p @ ''youtube.com/watch?v='' @ ID @ s) = Inr ID"
      unfolding extractVideoId_download_def long d by simp
  qed
  have e2: "first_occurrence url_prefixes p (''youtu.be/'' @ ID @ s)
          \<longrightarrow> extractVideoId_download (p @ ''youtu.be/'' @ ID @ s) = Inr ID"
  proof
    assume "first_occurrence url_prefixes p (''youtu.be/'' @ ID @ s)"
    then have d: "download_pattern1 (p @ ''youtu.be/'' @ ID @ s) = Some ID"
      using cap11 by (intro download_pattern1_form) simp_all
    show "extractVideoId_download (p @ ''youtu.be/'' @ ID @ s) = Inr ID"
      unfolding extractVideoId_download_def long d by simp
  qed
  have e3: "first_occurrence url_prefixes p (''youtube.com/embed/'' @ ID @ s)
            \<and> \<not> occurs_in [''youtube.com/watch?v='', ''youtu.be/''] (ID @ s)
          \<longrightarrow> extractVideoId_download (p @ ''youtube.com/embed/'' @ ID @ s) = Inr ID"
  proof
    assume a: "first_occurrence url_prefixes p (''youtube.com/embed/'' @ ID @ s)
            \<and> \<not> occurs_in [''youtube.com/watch?v='', ''youtu.be/''] (ID @ s)"
    have n1: "download_pattern1 (p @ ''youtube.com/embed/'' @ ID @ s) = None"
      using a by (intro download_pattern1_embed) simp_all
    have d: "download_pattern2 (p @ ''youtube.com/embed/'' @ ID @ s) = Some ID"
      using a cap11 by (intro download_pattern2_form) simp_all
    show "extractVideoId_download (p @ ''youtube.com/embed/'' @ ID @ s) = Inr ID"
      unfolding extractVideoId_download_def long d n1 by simp
  qed
  have e4: "extractVideoId_download ID = Inr ID"
    by (simp add: extractVideoId_download_def bare)
  show ?thesis
    by (intro conjI c1 c2 c3 c4 e1 e2 e3 e4)
qed

theorem extractVideoId_url_forms_witness:
  "length ''kCc8FmEb1nY'' = 11 \<and> list_all id_char ''kCc8FmEb1nY''
   \<and> first_occurrence url_prefixes ''https://www.'' (''youtube.com/watch?v='' @ ''kCc8FmEb1nY'' @ ''?autoplay=1'')
   \<and> first_occurrence url_prefixes ''https://www.'' (''youtu.be/'' @ ''kCc8FmEb1nY'' @ ''?autoplay=1'')
   \<and> first_occurrence url_prefixes ''https://www.'' (''youtube.com/embed/'' @ ''kCc8FmEb1nY'' @ ''?autoplay=1'')
   \<and> id_delim (hd ''?autoplay=1'')
   \<and> \<not> occurs_in [''youtube.com/watch?v='', ''youtu.be/''] (''kCc8FmEb1nY'' @ ''?autoplay=1'')
   \<and> extractVideoId ''https://www.youtube.com/watch?v=kCc8FmEb1nY?autoplay=1'' = Some ''kCc8FmEb1nY''
   \<and> extractVideoId ''https://www.youtu.be/kCc8FmEb1nY?autoplay=1'' = Some ''kCc8FmEb1nY''
   \<and> extractVideoId ''https://www.youtube.com/embed/kCc8FmEb1nY?autoplay=1'' = Some ''kCc8FmEb1nY''
   \<and> extractVideoId ''kCc8FmEb1nY'' = Some ''kCc8FmEb1nY''
   \<and> extractVideoId_download ''https://www.youtube.com/watch?v=kCc8FmEb1nY?autoplay=1'' = Inr ''kCc8FmEb1nY''
   \<and> extractVideoId_download ''https://www.youtu.be/kCc8FmEb1nY?autoplay=1'' = Inr ''kCc8FmEb1nY''
   \<and> extractVideoId_download ''https://www.youtube.com/embed/kCc8FmEb1nY?autoplay=1'' = Inr ''kCc8FmEb1nY''
   \<and> extractVideoId_download ''kCc8FmEb1nY'' = Inr ''kCc8FmEb1nY''"
proof -
  have h1: "length ''kCc8FmEb1nY'' = 11" by simp
  have h2: "\<forall>c\<in>set ''kCc8FmEb1nY''. id_char c" by (simp add: id_char_def)
  have h2': "list_all id_char ''kCc8FmEb1nY''" by (simp add: id_char_def)
  have f1: "first_occurrence url_prefixes ''https://www.'' (''youtube.com/watch?v='' @ ''kCc8FmEb1nY'' @ ''?autoplay=1'')"
    by code_simp
  have f2: "first_occurrence url_prefixes ''https://www.'' (''youtu.be/'' @ ''kCc8FmEb1nY'' @ ''?autoplay=1'')"
    by code_simp
  have f3: "first_occurrence url_prefixes ''https://www.'' (''youtube.com/embed/'' @ ''kCc8FmEb1nY'' @ ''?autoplay=1'')"
    by code_simp
  have h4: "id_delim (hd ''?autoplay=1'')" by (simp add: id_delim_def)
  have h4': "''?autoplay=1'' = [] \<or> id_delim (hd ''?autoplay=1'')" using h4 by simp
  have h5: "\<not> occurs_in [''youtube.com/watch?v='', ''youtu.be/''] (''kCc8FmEb1nY'' @ ''?autoplay=1'')"
    by code_simp
  note t = extractVideoId_url_forms[OF h1 h2, of "''https://www.''" "''?autoplay=1''"]
  have r1: "extractVideoId (''https://www.'' @ ''youtube.com/watch?v='' @ ''kCc8FmEb1nY'' @ ''?autoplay=1'') = Some ''kCc8FmEb1nY''"
    by (rule mp[OF conjunct1[OF t] conjI[OF f1 h4']])
  have r2: "extractVideoId (''https://www.'' @ ''youtu.be/'' @ ''kCc8FmEb1nY'' @ ''?autoplay=1'') = Some ''kCc8FmEb1nY''"
    by (rule mp[OF conjunct1[OF conjunct2[OF t]] conjI[OF f2 h4']])
  have r3: "extractVideoId (''https://www.'' @ ''youtube.com/embed/'' @ ''kCc8FmEb1nY'' @ ''?autoplay=1'') = Some ''kCc8FmEb1nY''"
    by (rule mp[OF conjunct1[OF conjunct2[OF conjunct2[OF t]]] conjI[OF f3 h4']])
  note t4 = conjunct2[OF conjunct2[OF conjunct2[OF t]]]
  have r4: "extractVideoId ''kCc8FmEb1nY'' = Some ''kCc8FmEb1nY''"
    by (rule conjunct1[OF t4])
  have r5: "extractVideoId_download (''https://www.'' @ ''youtube.com/watch?v='' @ ''kCc8FmEb1nY'' @ ''?autoplay=1'') = Inr ''kCc8FmEb1nY''"
    by (rule mp[OF conjunct1[OF conjunct2[OF t4]] f1])
  have r6: "extractVideoId_download (''https://www.'' @ ''youtu.be/'' @ ''kCc8FmEb1nY'' @ ''?autoplay=1'') = Inr ''kCc8FmEb1nY''"
    by (rule mp[OF conjunct1[OF conjunct2[OF conjunct2[OF t4]]] f2])
  note t7 = conjunct2[OF conjunct2[OF conjunct2[OF t4]]]
  have r7: "extractVideoId_download (''https://www.'' @ ''youtube.com/embed/'' @ ''kCc8FmEb1nY'' @ ''?autoplay=1'') = Inr ''kCc8FmEb1nY''"
    by (rule mp[OF conjunct1[OF t7] conjI[OF f3 h5]])
  have r8: "extractVideoId_download ''kCc8FmEb1nY'' = Inr ''kCc8FmEb1nY''"
    by (rule conjunct2[OF t7])
  have a1: "''https://www.youtube.com/watch?v=kCc8FmEb1nY?autoplay=1''
      = ''https://www.'' @ ''youtube.com/watch?v='' @ ''kCc8FmEb1nY'' @ ''?autoplay=1''" by simp
  have a2: "''https://www.youtu.be/kCc8FmEb1nY?autoplay=1''
      = ''https://www.'' @ ''youtu.be/'' @ ''kCc8FmEb1nY'' @ ''?autoplay=1''" by simp
  have a3: "''https://www.youtube.com/embed/kCc8FmEb1nY?autoplay=1''
      = ''https://www.'' @ ''youtube.com/embed/'' @ ''kCc8FmEb1nY'' @ ''?autoplay=1''" by simp
  show ?thesis
    unfolding a1 a2 a3
    by (intro conjI h1 h2' f1 f2 f3 h4 h5 r1 r2 r3 r4 r5 r6 r7 r8)
qed

section \<open>The capture is not validated\<close>

lemma url_match_occurrence:
  assumes "lit \<in> set url_prefixes" and "r \<noteq> []" and "\<not> id_delim (hd r)"
  shows "match_alternatives url_prefixes capture_until_delim (lit @ r) \<noteq> None"
proof -
  have "capture_until_delim r = Some (takeWhile (\<lambda>x. \<not> id_delim x) r)"
    using assms(2,3) by (cases r) (simp_all add: capture_until_delim_def)
  note lits = url_match_literals[of capture_until_delim r, OF this]
  from assms(1) consider "lit = ''youtube.com/watch?v=''" | "lit = ''youtu.be/''"
    | "lit = ''youtube.com/embed/''"
    by (auto simp: url_prefixes_def)
  then show ?thesis
    by cases (simp_all only: lits option.distinct not_False_eq_True)
qed

text \<open>
  Claim C9.  Whenever one of the three URL prefixes occurs in the input followed by a
  character other than \<open>&\<close>, newline, \<open>?\<close>, \<open>#\<close>, the caption pipeline's resolver returns
  the text behind the leftmost such occurrence up to the first of these delimiters,
  whatever its length: \<open>https://youtu.be/abc\<close> and \<open>youtu.be/abc\<close> resolve to the
  three characters \<open>abc\<close>.
\<close>

theorem extractVideoId_unvalidated_capture:
  assumes "url = p @ lit @ r" and "lit \<in> set url_prefixes" and "r \<noteq> []" and "\<not> id_delim (hd r)"
  shows "(\<exists>p' lit' r'. url = p' @ lit' @ r' \<and> lit' \<in> set url_prefixes \<and> length p' \<le> length p
            \<and> takeWhile (\<lambda>c. \<not> id_delim c) r' \<noteq> []
            \<and> extractVideoId url = Some (takeWhile (\<lambda>c. \<not> id_delim c) r'))
       \<and> extractVideoId ''https://youtu.be/abc'' = Some ''abc''
       \<and> extractVideoId ''youtu.be/abc'' = Some ''abc''
       \<and> length ''abc'' \<noteq> 11"
proof (intro conjI)
  let ?m = "match_alternatives url_prefixes capture_until_delim"
  from regex_search_leftmost[of ?m "lit @ r" p, OF url_match_occurrence[OF assms(2,3,4)]]
  obtain p' t' v where split: "p @ lit @ r = p' @ t'" and le: "length p' \<le> length p"
    and hit: "?m t' = Some v" and found: "regex_search ?m (p @ lit @ r) = Some v"
    by blast
  from match_alternatives_SomeD[OF hit] obtain lit' where lit': "lit' \<in> set url_prefixes"
    and pre: "prefix lit' t'" and cap: "capture_until_delim (drop (length lit') t') = Some v"
    by blast
  define r' where "r' = drop (length lit') t'"
  from pre have t': "t' = lit' @ r'" by (auto simp: r'_def prefix_def)
  from cap have v: "v = takeWhile (\<lambda>c. \<not> id_delim c) r'" and ne: "takeWhile (\<lambda>c. \<not> id_delim c) r' \<noteq> []"
    by (auto simp: capture_until_delim_def r'_def Let_def split: if_splits)
  have "extractVideoId url = Some (takeWhile (\<lambda>c. \<not> id_delim c) r')"
    by (simp add: extractVideoId_def url_pattern_def assms(1) found v)
  moreover have "url = p' @ lit' @ r'" using assms(1) split t' by simp
  ultimately show "\<exists>p' lit' r'. url = p' @ lit' @ r' \<and> lit' \<in> set url_prefixes \<and> length p' \<le> length p
            \<and> takeWhile (\<lambda>c. \<not> id_delim c) r' \<noteq> []
            \<and> extractVideoId url = Some (takeWhile (\<lambda>c. \<not> id_delim c) r')"
    using lit' le ne by blast
  show "extractVideoId ''https://youtu.be/abc'' = Some ''abc''" by code_simp
  show "extractVideoId ''youtu.be/abc'' = Some ''abc''" by code_simp
  show "length ''abc'' \<noteq> 11" by simp
qed

theorem extractVideoId_unvalidated_capture_witness:
  "''https://youtu.be/abc?x=1'' = ''https://'' @ ''youtu.be/'' @ ''abc?x=1''
   \<and> ''youtu.be/'' \<in> set url_prefixes \<and> ''abc?x=1'' \<noteq> [] \<and> \<not> id_delim (hd ''abc?x=1'')
   \<and> (\<exists>p' lit' r'. ''https://youtu.be/abc?x=1'' = p' @ lit' @ r' \<and> lit' \<in> set url_prefixes
          \<and> length p' \<le> length ''https://''
          \<and> takeWhile (\<lambda>c. \<not> id_delim c) r' \<noteq> []
          \<and> extractVideoId ''https://youtu.be/abc?x=1'' = Some (takeWhile (\<lambda>c. \<not> id_delim c) r'))
   \<and> extractVideoId ''https://youtu.be/abc?x=1'' = Some ''abc''"
proof -
  have h1: "''https://youtu.be/abc?x=1'' = ''https://'' @ ''youtu.be/'' @ ''abc?x=1''" by simp
  have h2: "''youtu.be/'' \<in> set url_prefixes" by (simp add: url_prefixes_def)
  have h3: "''abc?x=1'' \<noteq> []" by simp
  have h4: "\<not> id_delim (hd ''abc?x=1'')" by (simp add: id_delim_def)
  have ex: "extractVideoId ''https://youtu.be/abc?x=1'' = Some ''abc''" by code_simp
  show ?thesis
    by (intro conjI h1 h2 h3 h4 ex conjunct1[OF extractVideoId_unvalidated_capture[OF h1 h2 h3 h4]])
qed

section \<open>The segment normalizer\<close>

lemma to_segment_ok:
  assumes "has_offset_and_duration item"
  shows "\<exists>it. item = Val it \<and> to_segment i item =
           Inr \<lparr> seg_text = or_empty (raw_text it),
                  seg_timestamp = num_div (ToNumber (raw_offset it)) 1000,
                  seg_duration = num_div (ToNumber (raw_duration it)) 1000 \<rparr>"
  using assms by (cases item) (simp_all add: has_offset_and_duration_def to_segment_def)

lemma to_segment_bad:
  assumes "\<not> has_offset_and_duration item"
  shows "to_segment i item = Inl (InvalidSegment i item)"
  using assms by (cases item) (auto simp: has_offset_and_duration_def to_segment_def)

lemma map_segments_ok:
  assumes "\<forall>item\<in>set raw. has_offset_and_duration item"
  shows "\<exists>segs. map_segments i raw = Inr segs \<and> length segs = length raw
           \<and> (\<forall>k<length raw. to_segment (i + k) (raw ! k) = Inr (segs ! k))"
  using assms
proof (induction raw arbitrary: i)
  case Nil
  then show ?case by simp
next
  case (Cons item raw)
  from Cons.prems have "has_offset_and_duration item" by simp
  from to_segment_ok[OF this, of i] obtain s where s: "to_segment i item = Inr s" by blast
  from Cons.prems have "\<forall>x\<in>set raw. has_offset_and_duration x" by simp
  from Cons.IH[OF this, of "Suc i"] obtain segs where
    segs: "map_segments (Suc i) raw = Inr segs" "length segs = length raw"
      "\<forall>k<length raw. to_segment (Suc i + k) (raw ! k) = Inr (segs ! k)"
    by blast
  have "\<forall>k<length (item # raw). to_segment (i + k) ((item # raw) ! k) = Inr ((s # segs) ! k)"
  proof (intro allI impI)
    fix k assume "k < length (item # raw)"
    then show "to_segment (i + k) ((item # raw) ! k) = Inr ((s # segs) ! k)"
      using s segs(3) by (cases k) simp_all
  qed
  then show ?case using s segs(1,2) by simp
qed

lemma map_segments_first_bad:
  assumes "k < length raw" and "\<not> has_offset_and_duration (raw ! k)"
    and "\<forall>j<k. has_offset_and_duration (raw ! j)"
  shows "map_segments i raw = Inl (InvalidSegment (i + k) (raw ! k))"
  using assms
proof (induction raw arbitrary: i k)
  case Nil
  then show ?case by simp
next
  case (Cons item raw)
  show ?case
  proof (cases k)
    case 0
    with Cons.prems(2) show ?thesis by (simp add: to_segment_bad)
  next
    case (Suc k')
    from Cons.prems(3) Suc have "has_offset_and_duration item" by auto
    from to_segment_ok[OF this, of i] obtain s where s: "to_segment i item = Inr s" by blast
    from Cons.prems Suc have "k' < length raw" "\<not> has_offset_and_duration (raw ! k')"
      "\<forall>j<k'. has_offset_and_duration (raw ! j)"
      by auto
    from Cons.IH[OF this, of "Suc i"] show ?thesis using s Suc by simp
  qed
qed

lemma first_bad_exists:
  assumes "\<not> (\<forall>item\<in>set raw. has_offset_and_duration item)"
  shows "\<exists>k<length raw. \<not> has_offset_and_duration (raw ! k)
           \<and> (\<forall>j<k. has_offset_and_duration (raw ! j))"
proof -
  from assms obtain n where n: "n < length raw" "\<not> has_offset_and_duration (raw ! n)"
    by (auto simp: in_set_conv_nth)
  define k where "k = (LEAST m. m < length raw \<and> \<not> has_offset_and_duration (raw ! m))"
  have k: "k < length raw \<and> \<not> has_offset_and_duration (raw ! k)"
    unfolding k_def by (rule LeastI[of _ n]) (use n in simp)
  have "has_offset_and_duration (raw ! j)" if "j < k" for j
  proof (rule ccontr)
    assume bad: "\<not> has_offset_and_duration (raw ! j)"
    from that k have "j < length raw" by simp
    with bad have "k \<le> j" unfolding k_def by (intro Least_le) simp
    with that show False by simp
  qed
  with k show ?thesis by blast
qed

text \<open>
  Claim C3.  For a non-empty caption list in which every element has its offset and its
  duration defined, the normalizer returns one segment per element, whose timestamp and
  duration are the element's offset and duration divided by 1000, and the total duration
  is the last segment's timestamp plus its duration.  The two segments of the
  specification give a total of 2 seconds (and the timestamps \<open>0:00\<close> and \<open>0:01\<close>); when
  the last segment is not the latest one, the total is still taken from the last
  segment: offsets 5000 and 0 with durations 1000 give 1 second, not 6.
\<close>

theorem normalizer_seconds_and_total:
  assumes "rawTranscript \<noteq> []"
    and "\<forall>item\<in>set rawTranscript. has_offset_and_duration item"
  shows "(\<exists>out. processSegments rawTranscript = Inr out
            \<and> length (transcriptSegments out) = length rawTranscript
            \<and> (\<forall>i<length rawTranscript. \<forall>it. rawTranscript ! i = Val it \<longrightarrow>
                  seg_timestamp (transcriptSegments out ! i) = num_div (ToNumber (raw_offset it)) 1000
                \<and> seg_duration (transcriptSegments out ! i) = num_div (ToNumber (raw_duration it)) 1000)
            \<and> totalDuration out =
                num_add (seg_timestamp (last (transcriptSegments out)))
                        (seg_duration (last (transcriptSegments out))))
       \<and> num_div (ToNumber (Val (Fin ms))) 1000 = Fin (ms / 1000)
       \<and> processSegments
           [Val \<lparr>raw_text = Val ''a'', raw_offset = Val (Fin 0), raw_duration = Val (Fin 1000)\<rparr>,
            Val \<lparr>raw_text = Val ''b'', raw_offset = Val (Fin 1000), raw_duration = Val (Fin 1000)\<rparr>]
         = Inr \<lparr>transcriptSegments =
                  [\<lparr>seg_text = ''a'', seg_timestamp = Fin 0, seg_duration = Fin 1\<rparr>,
                   \<lparr>seg_text = ''b'', seg_timestamp = Fin 1, seg_duration = Fin 1\<rparr>],
                totalDuration = Fin 2,
                fullTranscriptText = ''[0:00] a'' @ [CHR 0x0A] @ ''[0:01] b''\<rparr>
       \<and> processSegments
           [Val \<lparr>raw_text = Val ''a'', raw_offset = Val (Fin 5000), raw_duration = Val (Fin 1000)\<rparr>,
            Val \<lparr>raw_text = Val ''b'', raw_offset = Val (Fin 0), raw_duration = Val (Fin 1000)\<rparr>]
         = Inr \<lparr>transcriptSegments =
                  [\<lparr>seg_text = ''a'', seg_timestamp = Fin 5, seg_duration = Fin 1\<rparr>,
                   \<lparr>seg_text = ''b'', seg_timestamp = Fin 0, seg_duration = Fin 1\<rparr>],
                totalDuration = Fin 1,
                fullTranscriptText = ''[0:05] a'' @ [CHR 0x0A] @ ''[0:00] b''\<rparr>"
proof (intro conjI)
  from map_segments_ok[OF assms(2), of 0] obtain segs where
    segs: "map_segments 0 rawTranscript = Inr segs" "length segs = length rawTranscript"
      "\<forall>k<length rawTranscript. to_segment k (rawTranscript ! k) = Inr (segs ! k)"
    by auto
  from assms(1) segs(2) have ne: "segs \<noteq> []" by auto
  define out where "out = \<lparr> transcriptSegments = segs,
      totalDuration = num_add (seg_timestamp (last segs)) (seg_duration (last segs)),
      fullTranscriptText = join [CHR 0x0A]
        (map (\<lambda>seg. ''['' @ formatTimestamp (seg_timestamp seg) @ ''] '' @ seg_text seg) segs) \<rparr>"
  have run: "processSegments rawTranscript = Inr out"
    using assms(1) segs(1) ne by (simp add: processSegments_def out_def Let_def)
  have fields: "seg_timestamp (segs ! i) = num_div (ToNumber (raw_offset it)) 1000
      \<and> seg_duration (segs ! i) = num_div (ToNumber (raw_duration it)) 1000"
    if "i < length rawTranscript" "rawTranscript ! i = Val it" for i it
  proof -
    from that(1) assms(2) have "has_offset_and_duration (rawTranscript ! i)" by simp
    from to_segment_ok[OF this, of i] that(2)
    have "to_segment i (rawTranscript ! i) =
        Inr \<lparr> seg_text = or_empty (raw_text it),
               seg_timestamp = num_div (ToNumber (raw_offset it)) 1000,
               seg_duration = num_div (ToNumber (raw_duration it)) 1000 \<rparr>"
      by auto
    moreover from segs(3) that(1) have "to_segment i (rawTranscript ! i) = Inr (segs ! i)" by simp
    ultimately have "segs ! i = \<lparr> seg_text = or_empty (raw_text it),
               seg_timestamp = num_div (ToNumber (raw_offset it)) 1000,
               seg_duration = num_div (ToNumber (raw_duration it)) 1000 \<rparr>"
      by simp
    then show ?thesis by simp
  qed
  show "\<exists>out. processSegments rawTranscript = Inr out
            \<and> length (transcriptSegments out) = length rawTranscript
            \<and> (\<forall>i<length rawTranscript. \<forall>it. rawTranscript ! i = Val it \<longrightarrow>
                  seg_timestamp (transcriptSegments out ! i) = num_div (ToNumber (raw_offset it)) 1000
                \<and> seg_duration (transcriptSegments out ! i) = num_div (ToNumber (raw_duration it)) 1000)
            \<and> totalDuration out =
                num_add (seg_timestamp (last (transcriptSegments out)))
                        (seg_duration (last (transcriptSegments out)))"
    apply (rule exI[where x = out])
    using run segs(2) fields by (simp add: out_def)
  show "num_div (ToNumber (Val (Fin ms))) 1000 = Fin (ms / 1000)" by simp
  show "processSegments
           [Val \<lparr>raw_text = Val ''a'', raw_offset = Val (Fin 0), raw_duration = Val (Fin 1000)\<rparr>,
            Val \<lparr>raw_text = Val ''b'', raw_offset = Val (Fin 1000), raw_duration = Val (Fin 1000)\<rparr>]
         = Inr \<lparr>transcriptSegments =
                  [\<lparr>seg_text = ''a'', seg_timestamp = Fin 0, seg_duration = Fin 1\<rparr>,
                   \<lparr>seg_text = ''b'', seg_timestamp = Fin 1, seg_duration = Fin 1\<rparr>],
                totalDuration = Fin 2,
                fullTranscriptText = ''[0:00] a'' @ [CHR 0x0A] @ ''[0:01] b''\<rparr>"
    by code_simp
  show "processSegments
           [Val \<lparr>raw_text = Val ''a'', raw_offset = Val (Fin 5000), raw_duration = Val (Fin 1000)\<rparr>,
            Val \<lparr>raw_text = Val ''b'', raw_offset = Val (Fin 0), raw_duration = Val (Fin 1000)\<rparr>]
         = Inr \<lparr>transcriptSegments =
                  [\<lparr>seg_text = ''a'', seg_timestamp = Fin 5, seg_duration = Fin 1\<rparr>,
                   \<lparr>seg_text = ''b'', seg_timestamp = Fin 0, seg_duration = Fin 1\<rparr>],
                totalDuration = Fin 1,
                fullTranscriptText = ''[0:05] a'' @ [CHR 0x0A] @ ''[0:00] b''\<rparr>"
    by code_simp
qed

theorem normalizer_seconds_and_total_witness:
  "[Val \<lparr>raw_text = Undefined, raw_offset = Val (Fin 1500), raw_duration = Val (Fin 500)\<rparr>] \<noteq> []
   \<and> list_all has_offset_and_duration
        [Val \<lparr>raw_text = Undefined, raw_offset = Val (Fin 1500), raw_duration = Val (Fin 500)\<rparr>]
   \<and> (\<exists>out. processSegments
          [Val \<lparr>raw_text = Undefined, raw_offset = Val (Fin 1500), raw_duration = Val (Fin 500)\<rparr>] = Inr out
        \<and> length (transcriptSegments out) = 1
        \<and> seg_timestamp (transcriptSegments out ! 0) = Fin (3 / 2)
        \<and> seg_duration (transcriptSegments out ! 0) = Fin (1 / 2)
        \<and> totalDuration out =
            num_add (seg_timestamp (last (transcriptSegments out)))
                    (seg_duration (last (transcriptSegments out))))"
proof -
  let ?raw = "[Val \<lparr>raw_text = Undefined, raw_offset = Val (Fin 1500), raw_duration = Val (Fin 500)\<rparr>]"
  have h1: "?raw \<noteq> []" by simp
  have h2: "\<forall>item\<in>set ?raw. has_offset_and_duration item"
    by (simp add: has_offset_and_duration_def)
  from conjunct1[OF normalizer_seconds_and_total[OF h1 h2]] obtain out where
    out: "processSegments ?raw = Inr out" "length (transcriptSegments out) = length ?raw"
      "\<forall>i<length ?raw. \<forall>it. ?raw ! i = Val it \<longrightarrow>
          seg_timestamp (transcriptSegments out ! i) = num_div (ToNumber (raw_offset it)) 1000
        \<and> seg_duration (transcriptSegments out ! i) = num_div (ToNumber (raw_duration it)) 1000"
      "totalDuration out =
            num_add (seg_timestamp (last (transcriptSegments out)))
                    (seg_duration (last (transcriptSegments out)))"
    by blast
  from out(3) have "seg_timestamp (transcriptSegments out ! 0) = Fin (3 / 2)"
    "seg_duration (transcriptSegments out ! 0) = Fin (1 / 2)"
    by simp_all
  with out(1,2,4) h2 show ?thesis by (simp add: list_all_iff)
qed

lemma map_segments_texts:
  assumes "\<forall>item\<in>set raw. has_offset_and_duration item" and "map_segments i raw = Inr segs"
  shows "map seg_text segs = map (\<lambda>item. case item of Val it \<Rightarrow> or_empty (raw_text it) | _ \<Rightarrow> []) raw"
proof -
  from map_segments_ok[OF assms(1), of i] assms(2) have len: "length segs = length raw"
    and each: "\<forall>k<length raw. to_segment (i + k) (raw ! k) = Inr (segs ! k)"
    by auto
  show ?thesis
  proof (rule nth_equalityI)
    show "length (map seg_text segs)
        = length (map (\<lambda>item. case item of Val it \<Rightarrow> or_empty (raw_text it) | _ \<Rightarrow> []) raw)"
      using len by simp
  next
    fix k assume "k < length (map seg_text segs)"
    with len have k: "k < length raw" by simp
    with assms(1) have "has_offset_and_duration (raw ! k)" by simp
    from to_segment_ok[OF this, of "i + k"] obtain it where it: "raw ! k = Val it"
      "to_segment (i + k) (raw ! k) = Inr \<lparr> seg_text = or_empty (raw_text it),
                  seg_timestamp = num_div (ToNumber (raw_offset it)) 1000,
                  seg_duration = num_div (ToNumber (raw_duration it)) 1000 \<rparr>"
      by auto
    moreover from each k have "to_segment (i + k) (raw ! k) = Inr (segs ! k)" by simp
    ultimately have "segs ! k = \<lparr> seg_text = or_empty (raw_text it),
                  seg_timestamp = num_div (ToNumber (raw_offset it)) 1000,
                  seg_duration = num_div (ToNumber (raw_duration it)) 1000 \<rparr>"
      by simp
    then show "map seg_text segs ! k
        = map (\<lambda>item. case item of Val it \<Rightarrow> or_empty (raw_text it) | _ \<Rightarrow> []) raw ! k"
      using k len it(1) by simp
  qed
qed

text \<open>
  Claim C10.  A caption segment whose offset and duration are both defined is
  normalized without an error whatever its text field is: an undefined, null or empty
  text becomes the empty string.  A run over a non-empty list fails only at a segment
  that lacks its offset or its duration (a null or undefined element lacks both), and
  the error carries the index of the first such segment.
\<close>

theorem normalizer_tolerates_text:
  "(has_offset_and_duration (Val it) \<longrightarrow>
      to_segment index (Val it) =
        Inr \<lparr> seg_text = or_empty (raw_text it),
               seg_timestamp = num_div (ToNumber (raw_offset it)) 1000,
               seg_duration = num_div (ToNumber (raw_duration it)) 1000 \<rparr>)
   \<and> or_empty Undefined = [] \<and> or_empty Null = [] \<and> or_empty (Val []) = []
   \<and> (rawTranscript \<noteq> [] \<and> (\<forall>item\<in>set rawTranscript. has_offset_and_duration item) \<longrightarrow>
        (\<exists>out. processSegments rawTranscript = Inr out
           \<and> map seg_text (transcriptSegments out) =
               map (\<lambda>item. case item of Val it \<Rightarrow> or_empty (raw_text it) | _ \<Rightarrow> []) rawTranscript))
   \<and> (\<forall>k. k < length rawTranscript \<and> \<not> has_offset_and_duration (rawTranscript ! k)
          \<and> (\<forall>j<k. has_offset_and_duration (rawTranscript ! j)) \<longrightarrow>
        processSegments rawTranscript = Inl (InvalidSegment k (rawTranscript ! k)))
   \<and> (\<forall>e. processSegments rawTranscript = Inl e \<longrightarrow>
        (e = TranscriptEmpty \<and> rawTranscript = [])
        \<or> (\<exists>k<length rawTranscript. e = InvalidSegment k (rawTranscript ! k)
              \<and> \<not> has_offset_and_duration (rawTranscript ! k)))"
proof (intro conjI allI impI)
  assume "has_offset_and_duration (Val it)"
  from to_segment_ok[OF this, of index]
  show "to_segment index (Val it) =
        Inr \<lparr> seg_text = or_empty (raw_text it),
               seg_timestamp = num_div (ToNumber (raw_offset it)) 1000,
               seg_duration = num_div (ToNumber (raw_duration it)) 1000 \<rparr>"
    by simp
next
  show "or_empty Undefined = []" "or_empty Null = []" "or_empty (Val []) = []" by simp_all
next
  assume good: "rawTranscript \<noteq> [] \<and> (\<forall>item\<in>set rawTranscript. has_offset_and_duration item)"
  then have all: "\<forall>item\<in>set rawTranscript. has_offset_and_duration item" by simp
  from map_segments_ok[OF all, of 0] obtain segs where
    segs: "map_segments 0 rawTranscript = Inr segs" "length segs = length rawTranscript"
    by auto
  from good segs(2) have ne: "segs \<noteq> []" by auto
  note texts = map_segments_texts[OF all segs(1)]
  show "\<exists>out. processSegments rawTranscript = Inr out
           \<and> map seg_text (transcriptSegments out) =
               map (\<lambda>item. case item of Val it \<Rightarrow> or_empty (raw_text it) | _ \<Rightarrow> []) rawTranscript"
    using good segs(1) ne texts by (simp add: processSegments_def Let_def)
next
  fix k
  assume bad: "k < length rawTranscript \<and> \<not> has_offset_and_duration (rawTranscript ! k)
          \<and> (\<forall>j<k. has_offset_and_duration (rawTranscript ! j))"
  then have "rawTranscript \<noteq> []" by auto
  moreover from bad have "map_segments 0 rawTranscript = Inl (InvalidSegment (0 + k) (rawTranscript ! k))"
    by (intro map_segments_first_bad) simp_all
  ultimately show "processSegments rawTranscript = Inl (InvalidSegment k (rawTranscript ! k))"
    by (simp add: processSegments_def)
next
  fix e
  assume err: "processSegments rawTranscript = Inl e"
  show "(e = TranscriptEmpty \<and> rawTranscript = [])
        \<or> (\<exists>k<length rawTranscript. e = InvalidSegment k (rawTranscript ! k)
              \<and> \<not> has_offset_and_duration (rawTranscript ! k))"
  proof (cases "rawTranscript = []")
    case True
    with err show ?thesis by (simp add: processSegments_def)
  next
    case False
    show ?thesis
    proof (cases "\<forall>item\<in>set rawTranscript. has_offset_and_duration item")
      case True
      from map_segments_ok[OF True, of 0] obtain segs where
        segs: "map_segments 0 rawTranscript = Inr segs" "length segs = length rawTranscript"
        by auto
      with False have "segs \<noteq> []" by auto
      with False err segs(1) show ?thesis by (simp add: processSegments_def Let_def)
    next
      case bad: False
      from first_bad_exists[OF bad] obtain k where k: "k < length rawTranscript"
        "\<not> has_offset_and_duration (rawTranscript ! k)" "\<forall>j<k. has_offset_and_duration (rawTranscript ! j)"
        by blast
      from map_segments_first_bad[OF k, of 0] False err
      have "e = InvalidSegment k (rawTranscript ! k)"
        by (simp add: processSegments_def)
      with k show ?thesis by blast
    qed
  qed
qed

theorem normalizer_tolerates_text_witness:
  "has_offset_and_duration (Val \<lparr>raw_text = Null, raw_offset = Val (Fin 0), raw_duration = Val (Fin 1000)\<rparr>)
   \<and> to_segment 0 (Val \<lparr>raw_text = Null, raw_offset = Val (Fin 0), raw_duration = Val (Fin 1000)\<rparr>)
       = Inr \<lparr>seg_text = [], seg_timestamp = Fin 0, seg_duration = Fin 1\<rparr>
   \<and> (1::nat) < length [Val \<lparr>raw_text = Null, raw_offset = Val (Fin 0), raw_duration = Val (Fin 1000)\<rparr>,
                         Val \<lparr>raw_text = Val ''b'', raw_offset = Undefined, raw_duration = Val (Fin 1000)\<rparr>]
   \<and> \<not> has_offset_and_duration
         (Val \<lparr>raw_text = Val ''b'', raw_offset = Undefined, raw_duration = Val (Fin 1000)\<rparr>)
   \<and> processSegments [Val \<lparr>raw_text = Null, raw_offset = Val (Fin 0), raw_duration = Val (Fin 1000)\<rparr>,
                       Val \<lparr>raw_text = Val ''b'', raw_offset = Undefined, raw_duration = Val (Fin 1000)\<rparr>]
       = Inl (InvalidSegment 1
               (Val \<lparr>raw_text = Val ''b'', raw_offset = Undefined, raw_duration = Val (Fin 1000)\<rparr>))"
proof -
  let ?a = "\<lparr>raw_text = Null, raw_offset = Val (Fin 0), raw_duration = Val (Fin 1000)\<rparr>"
  let ?b = "\<lparr>raw_text = Val ''b'', raw_offset = Undefined, raw_duration = Val (Fin 1000)\<rparr>"
  have h1: "has_offset_and_duration (Val ?a)" by (simp add: has_offset_and_duration_def)
  have h2: "\<not> has_offset_and_duration (Val ?b)" by (simp add: has_offset_and_duration_def)
  note t = normalizer_tolerates_text[of ?a 0 "[Val ?a, Val ?b]"]
  from t h1 have c1: "to_segment 0 (Val ?a) = Inr \<lparr>seg_text = [], seg_timestamp = Fin 0, seg_duration = Fin 1\<rparr>"
    by simp
  have pre: "1 < length [Val ?a, Val ?b] \<and> \<not> has_offset_and_duration ([Val ?a, Val ?b] ! 1)
      \<and> (\<forall>j<1. has_offset_and_duration ([Val ?a, Val ?b] ! j))"
    using h1 h2 by simp
  from t have "\<forall>k. k < length [Val ?a, Val ?b] \<and> \<not> has_offset_and_duration ([Val ?a, Val ?b] ! k)
          \<and> (\<forall>j<k. has_offset_and_duration ([Val ?a, Val ?b] ! j)) \<longrightarrow>
        processSegments [Val ?a, Val ?b] = Inl (InvalidSegment k ([Val ?a, Val ?b] ! k))"
    by blast
  with pre have c2: "processSegments [Val ?a, Val ?b] = Inl (InvalidSegment 1 ([Val ?a, Val ?b] ! 1))"
    by blast
  from h1 h2 c1 c2 show ?thesis by simp
qed

section \<open>The language fallback\<close>

lemma trim_Nil: "trim [] = []"
  by (simp add: trim_def)

lemma item_texts_Val: "item_texts (map Val its) = Inr (map raw_text its)"
  by (induction its) simp_all

lemma candidate_text_segments:
  "candidate_text (Returns (Val (map Val its))) =
     (if its = [] then None else Some (join '' '' (map (\<lambda>it. element_string (raw_text it)) its)))"
  by (simp add: candidate_text_def item_texts_Val comp_def)

lemma attempt_accepted:
  assumes "accepted (fetch (request_of lang))"
  shows "attempt fetch lang st =
      (st\<lparr>calls := calls st @ [request_of lang],
          transcriptText := the (candidate_text (fetch (request_of lang)))\<rparr>, True)"
proof -
  from assms obtain t where t: "candidate_text (fetch (request_of lang)) = Some t"
    and long: "50 \<le> length (trim t)"
    by (auto simp: accepted_def split: option.splits)
  from long have "t \<noteq> []" by (auto simp: trim_Nil)
  with t long show ?thesis
    by (auto simp: attempt_def candidate_text_def Let_def
             split: fetch_outcome.splits js.splits sum.splits if_splits)
qed

lemma attempt_rejected:
  assumes "\<not> accepted (fetch (request_of lang))"
  shows "\<exists>st'. attempt fetch lang st = (st', False)
           \<and> calls st' = calls st @ [request_of lang]
           \<and> lastError st' \<noteq> None
           \<and> (transcriptText st = [] \<or> length (trim (transcriptText st)) < 50
                \<longrightarrow> transcriptText st' = [] \<or> length (trim (transcriptText st')) < 50)"
  using assms
  by (auto simp: attempt_def accepted_def candidate_text_def Let_def trim_Nil
           split: fetch_outcome.splits js.splits sum.splits if_splits)

lemma loop_first_accepted:
  assumes "k < length langs" and "accepted (fetch (request_of (langs ! k)))"
    and "\<forall>j<k. \<not> accepted (fetch (request_of (langs ! j)))"
  shows "calls (language_loop fetch langs st) = calls st @ take (Suc k) (map request_of langs)
       \<and> transcriptText (language_loop fetch langs st)
           = the (candidate_text (fetch (request_of (langs ! k))))"
  using assms
proof (induction langs arbitrary: k st)
  case Nil
  then show ?case by simp
next
  case (Cons lang langs)
  show ?case
  proof (cases k)
    case 0
    with Cons.prems(2) have "accepted (fetch (request_of lang))" by simp
    from attempt_accepted[of fetch lang st, OF this] 0 show ?thesis by simp
  next
    case (Suc k')
    with Cons.prems(3) have "\<not> accepted (fetch (request_of lang))" by auto
    from attempt_rejected[of fetch lang st, OF this] obtain st' where
      st': "attempt fetch lang st = (st', False)" "calls st' = calls st @ [request_of lang]"
      by blast
    from Cons.prems Suc have "k' < length langs" "accepted (fetch (request_of (langs ! k')))"
      "\<forall>j<k'. \<not> accepted (fetch (request_of (langs ! j)))"
      by auto
    from Cons.IH[OF this, of st'] st' Suc show ?thesis by simp
  qed
qed

lemma loop_none_accepted:
  assumes "\<forall>j<length langs. \<not> accepted (fetch (request_of (langs ! j)))"
    and "transcriptText st = [] \<or> length (trim (transcriptText st)) < 50"
  shows "calls (language_loop fetch langs st) = calls st @ map request_of langs
       \<and> (transcriptText (language_loop fetch langs st) = []
            \<or> length (trim (transcriptText (language_loop fetch langs st))) < 50)"
  using assms
proof (induction langs arbitrary: st)
  case Nil
  then show ?case by simp
next
  case (Cons lang langs)
  from Cons.prems(1) have "\<not> accepted (fetch (request_of lang))" by auto
  from attempt_rejected[of fetch lang st, OF this] Cons.prems(2) obtain st' where
    st': "attempt fetch lang st = (st', False)" "calls st' = calls st @ [request_of lang]"
      "transcriptText st' = [] \<or> length (trim (transcriptText st')) < 50"
    by blast
  from Cons.prems(1) have "\<forall>j<length langs. \<not> accepted (fetch (request_of (langs ! j)))" by auto
  from Cons.IH[OF this st'(3)] st'(1,2) show ?case by simp
qed

lemma requests_languageCodes: "map request_of languageCodes = requests"
  by (simp add: languageCodes_def requests_def)

lemma requests_nth: "j < 4 \<Longrightarrow> request_of (languageCodes ! j) = requests ! j"
proof -
  assume "j < 4"
  then have "j < length languageCodes" by (simp add: languageCodes_def)
  then have "map request_of languageCodes ! j = request_of (languageCodes ! j)" by (rule nth_map)
  then show ?thesis by (simp add: requests_languageCodes)
qed

lemma fetch_captions_accepted:
  assumes "k < 4" and "accepted (fetch (requests ! k))"
    and "\<forall>j<k. \<not> accepted (fetch (requests ! j))"
  shows "fetch_captions fetch = (take (Suc k) requests, Inr (the (candidate_text (fetch (requests ! k)))))"
proof -
  let ?st0 = "\<lparr>transcriptText = [], lastError = None, calls = []\<rparr>"
  have len: "length languageCodes = 4" by (simp add: languageCodes_def)
  have a: "k < length languageCodes" using assms(1) len by simp
  have b: "accepted (fetch (request_of (languageCodes ! k)))"
    using assms(1,2) by (simp add: requests_nth)
  have c: "\<forall>j<k. \<not> accepted (fetch (request_of (languageCodes ! j)))"
    using assms(1,3) by (simp add: requests_nth)
  from loop_first_accepted[OF a b c, of ?st0]
  have calls: "calls (language_loop fetch languageCodes ?st0) = take (Suc k) requests"
    and tx: "transcriptText (language_loop fetch languageCodes ?st0)
        = the (candidate_text (fetch (requests ! k)))"
    using assms(1) by (simp_all add: requests_languageCodes requests_nth)
  from assms(2) obtain t where t: "candidate_text (fetch (requests ! k)) = Some t"
    "50 \<le> length (trim t)"
    by (auto simp: accepted_def split: option.splits)
  then have "t \<noteq> []" by (auto simp: trim_Nil)
  with t calls tx show ?thesis
    by (simp add: fetch_captions_def Let_def)
qed

lemma fetch_captions_rejected:
  assumes "\<forall>j<4. \<not> accepted (fetch (requests ! j))"
  shows "fst (fetch_captions fetch) = requests \<and> (\<exists>msg. snd (fetch_captions fetch) = Inl msg)"
proof -
  let ?st0 = "\<lparr>transcriptText = [], lastError = None, calls = []\<rparr>"
  have len: "length languageCodes = 4" by (simp add: languageCodes_def)
  have a: "\<forall>j<length languageCodes. \<not> accepted (fetch (request_of (languageCodes ! j)))"
    using assms len by (simp add: requests_nth)
  have b: "transcriptText ?st0 = [] \<or> length (trim (transcriptText ?st0)) < 50" by simp
  from loop_none_accepted[OF a b]
  show ?thesis
    by (auto simp: fetch_captions_def Let_def requests_languageCodes)
qed

lemma first_accepted_exists:
  assumes "n < 4" and "accepted (fetch (requests ! n))"
  shows "\<exists>k\<le>n. accepted (fetch (requests ! k)) \<and> (\<forall>j<k. \<not> accepted (fetch (requests ! j)))"
proof -
  define k where "k = (LEAST m. accepted (fetch (requests ! m)))"
  have "accepted (fetch (requests ! k))" unfolding k_def using assms(2) by (rule LeastI)
  moreover have "k \<le> n" unfolding k_def using assms(2) by (rule Least_le)
  moreover have "\<not> accepted (fetch (requests ! j))" if "j < k" for j
    using that not_less_Least unfolding k_def by blast
  ultimately show ?thesis by blast
qed

lemma fetch_captions_calls:
  "\<exists>n. 0 < n \<and> n \<le> 4 \<and> fst (fetch_captions fetch) = take n requests
      \<and> (\<forall>j<n - 1. \<not> accepted (fetch (requests ! j)))
      \<and> (n < 4 \<longrightarrow> accepted (fetch (requests ! (n - 1))))
      \<and> (accepted (fetch (requests ! (n - 1))) \<longrightarrow>
            snd (fetch_captions fetch) = Inr (the (candidate_text (fetch (requests ! (n - 1))))))"
proof (cases "\<exists>n<4. accepted (fetch (requests ! n))")
  case True
  then obtain n where "n < 4" "accepted (fetch (requests ! n))" by blast
  from first_accepted_exists[of n fetch, OF this] obtain k where "k \<le> n"
    and k23: "accepted (fetch (requests ! k))" "\<forall>j<k. \<not> accepted (fetch (requests ! j))"
    by blast
  from \<open>k \<le> n\<close> \<open>n < 4\<close> have "k < 4" by simp
  note k = this k23
  note run = fetch_captions_accepted[OF k]
  have "0 < Suc k \<and> Suc k \<le> 4 \<and> fst (fetch_captions fetch) = take (Suc k) requests
      \<and> (\<forall>j<Suc k - 1. \<not> accepted (fetch (requests ! j)))
      \<and> (Suc k < 4 \<longrightarrow> accepted (fetch (requests ! (Suc k - 1))))
      \<and> (accepted (fetch (requests ! (Suc k - 1))) \<longrightarrow>
            snd (fetch_captions fetch) = Inr (the (candidate_text (fetch (requests ! (Suc k - 1))))))"
    using k run by simp
  then show ?thesis by (rule exI)
next
  case False
  then have none: "\<forall>j<4. \<not> accepted (fetch (requests ! j))" by blast
  from fetch_captions_rejected[OF this] have "fst (fetch_captions fetch) = take 4 requests"
    by (simp add: requests_def)
  with none have "0 < (4::nat) \<and> (4::nat) \<le> 4 \<and> fst (fetch_captions fetch) = take 4 requests
      \<and> (\<forall>j<4 - 1. \<not> accepted (fetch (requests ! j)))
      \<and> ((4::nat) < 4 \<longrightarrow> accepted (fetch (requests ! (4 - 1))))
      \<and> (accepted (fetch (requests ! (4 - 1))) \<longrightarrow>
            snd (fetch_captions fetch) = Inr (the (candidate_text (fetch (requests ! (4 - 1))))))"
    by simp
  then show ?thesis by (rule exI)
qed

text \<open>
  Claim C1.  Every run requests the languages in the order \<open>en\<close>, \<open>en-US\<close>, \<open>en-GB\<close>,
  no language: the calls made are the first \<open>n\<close> of these four, every candidate before
  the last call was rejected, a run that stops early stops at an accepted candidate,
  and it returns that candidate's text.  When the \<open>en\<close> call throws and the \<open>en-US\<close> call
  returns a non-empty segment sequence whose joined text meets the length requirement,
  the run returns the \<open>en-US\<close> text after exactly these two calls: neither \<open>en-GB\<close> nor
  the call without a language is made.
\<close>

theorem caption_fetch_order:
  "(\<exists>n. 0 < n \<and> n \<le> 4 \<and> fst (fetch_captions fetch) = take n requests
      \<and> (\<forall>j<n - 1. \<not> accepted (fetch (requests ! j)))
      \<and> (n < 4 \<longrightarrow> accepted (fetch (requests ! (n - 1))))
      \<and> (accepted (fetch (requests ! (n - 1))) \<longrightarrow>
            snd (fetch_captions fetch) = Inr (the (candidate_text (fetch (requests ! (n - 1)))))))
   \<and> requests = [Some ''en'', Some ''en-US'', Some ''en-GB'', None]
   \<and> (fetch (Some ''en'') = Throws m
        \<and> fetch (Some ''en-US'') = Returns (Val (map Val its)) \<and> its \<noteq> []
        \<and> 50 \<le> length (trim (join '' '' (map (\<lambda>it. element_string (raw_text it)) its)))
      \<longrightarrow> fetch_captions fetch =
            ([Some ''en'', Some ''en-US''],
             Inr (join '' '' (map (\<lambda>it. element_string (raw_text it)) its)))
        \<and> Some ''en-GB'' \<notin> set (fst (fetch_captions fetch))
        \<and> None \<notin> set (fst (fetch_captions fetch)))"
proof (intro conjI impI)
  show "\<exists>n. 0 < n \<and> n \<le> 4 \<and> fst (fetch_captions fetch) = take n requests
      \<and> (\<forall>j<n - 1. \<not> accepted (fetch (requests ! j)))
      \<and> (n < 4 \<longrightarrow> accepted (fetch (requests ! (n - 1))))
      \<and> (accepted (fetch (requests ! (n - 1))) \<longrightarrow>
            snd (fetch_captions fetch) = Inr (the (candidate_text (fetch (requests ! (n - 1))))))"
    by (rule fetch_captions_calls)
  show "requests = [Some ''en'', Some ''en-US'', Some ''en-GB'', None]"
    by (simp add: requests_def)
next
  assume h: "fetch (Some ''en'') = Throws m
        \<and> fetch (Some ''en-US'') = Returns (Val (map Val its)) \<and> its \<noteq> []
        \<and> 50 \<le> length (trim (join '' '' (map (\<lambda>it. element_string (raw_text it)) its)))"
  have r0: "requests ! 0 = Some ''en''" and r1: "requests ! 1 = Some ''en-US''"
    by (simp_all add: requests_def)
  have a: "accepted (fetch (requests ! 1))"
    unfolding r1 using h by (simp add: accepted_def candidate_text_segments)
  have b: "\<forall>j<1. \<not> accepted (fetch (requests ! j))"
    using h r0 by (simp add: accepted_def candidate_text_def)
  have "fetch_captions fetch = (take (Suc 1) requests, Inr (the (candidate_text (fetch (requests ! 1)))))"
    by (rule fetch_captions_accepted[OF _ a b]) simp
  then have run: "fetch_captions fetch =
            ([Some ''en'', Some ''en-US''],
             Inr (join '' '' (map (\<lambda>it. element_string (raw_text it)) its)))"
    unfolding r1 using h by (simp add: candidate_text_segments) (simp add: requests_def)
  then show "fetch_captions fetch =
            ([Some ''en'', Some ''en-US''],
             Inr (join '' '' (map (\<lambda>it. element_string (raw_text it)) its)))" .
  from run show "Some ''en-GB'' \<notin> set (fst (fetch_captions fetch))" by simp
  from run show "None \<notin> set (fst (fetch_captions fetch))" by simp
qed

theorem caption_fetch_order_witness:
  "fetch_table [(Some ''en'', Throws ''Transcript is disabled on this video'')]
       (one_segment ''The quick brown fox jumps over the lazy dog near the bank.'') (Some ''en'')
     = Throws ''Transcript is disabled on this video''
   \<and> fetch_table [(Some ''en'', Throws ''Transcript is disabled on this video'')]
       (one_segment ''The quick brown fox jumps over the lazy dog near the bank.'') (Some ''en-US'')
     = Returns (Val (map Val [\<lparr>raw_text = Val ''The quick brown fox jumps over the lazy dog near the bank.'',
                               raw_offset = Val (Fin 0), raw_duration = Val (Fin 1000)\<rparr>]))
   \<and> 50 \<le> length (trim ''The quick brown fox jumps over the lazy dog near the bank.'')
   \<and> fetch_captions
        (fetch_table [(Some ''en'', Throws ''Transcript is disabled on this video'')]
           (one_segment ''The quick brown fox jumps over the lazy dog near the bank.''))
     = ([Some ''en'', Some ''en-US''],
        Inr ''The quick brown fox jumps over the lazy dog near the bank.'')"
proof -
  let ?t = "''The quick brown fox jumps over the lazy dog near the bank.''"
  let ?it = "\<lparr>raw_text = Val ?t, raw_offset = Val (Fin 0), raw_duration = Val (Fin 1000)\<rparr>"
  let ?fetch = "fetch_table [(Some ''en'', Throws ''Transcript is disabled on this video'')] (one_segment ?t)"
  have h1: "?fetch (Some ''en'') = Throws ''Transcript is disabled on this video''"
    by (simp add: fetch_table_def)
  have h2: "?fetch (Some ''en-US'') = Returns (Val (map Val [?it]))"
    by (simp add: fetch_table_def one_segment_def)
  have h3: "[?it] \<noteq> []" by simp
  have len: "50 \<le> length (trim ?t)" by code_simp
  then have h4: "50 \<le> length (trim (join '' '' (map (\<lambda>it. element_string (raw_text it)) [?it])))"
    by simp
  from caption_fetch_order[of ?fetch "''Transcript is disabled on this video''" "[?it]"] h1 h2 h3 h4
  have "fetch_captions ?fetch = ([Some ''en'', Some ''en-US''],
      Inr (join '' '' (map (\<lambda>it. element_string (raw_text it)) [?it])))"
    by blast
  then have "fetch_captions ?fetch = ([Some ''en'', Some ''en-US''], Inr ?t)" by simp
  with h1 h2 len show ?thesis by simp
qed

lemma accepted_one_segment: "accepted (one_segment t) = (50 \<le> length (trim t))"
  by (simp add: accepted_def candidate_text_def one_segment_def)

lemma candidate_text_one_segment: "candidate_text (one_segment t) = Some t"
  by (simp add: candidate_text_def one_segment_def)

lemma next_candidate_attempted:
  assumes "k < 3" and "\<forall>j\<le>k. \<not> accepted (fetch (requests ! j))"
  shows "prefix (take (Suc (Suc k)) requests) (fst (fetch_captions fetch))"
proof -
  from fetch_captions_calls[of fetch] obtain n where n: "0 < n" "n \<le> 4"
    "fst (fetch_captions fetch) = take n requests"
    "n < 4 \<longrightarrow> accepted (fetch (requests ! (n - 1)))"
    by blast
  have "Suc (Suc k) \<le> n"
  proof (rule ccontr)
    assume "\<not> Suc (Suc k) \<le> n"
    with n(1) assms(1) have "n - 1 \<le> k" "n < 4" by simp_all
    with n(4) assms(2) show False by blast
  qed
  then have "take (Suc (Suc k)) requests = take (Suc (Suc k)) (take n requests)"
    by (simp add: min_def)
  then show ?thesis
    unfolding n(3) by (metis take_is_prefix)
qed

text \<open>
  Claim C5, as stated, fails: the check is \<open>transcriptText.trim().length < 50\<close>, so a
  candidate whose joined text has exactly 50 characters, none of them white space at
  either end, passes it.  Here the \<open>en\<close> candidate returns one segment of 50 characters:
  the run accepts it and makes no further call.
\<close>

theorem caption_fetch_fifty_accepted:
  "length ''The quick brown fox jumps over the lazy dog again.'' = 50
   \<and> fetch_captions
        (fetch_table [] (one_segment ''The quick brown fox jumps over the lazy dog again.''))
      = ([Some ''en''], Inr ''The quick brown fox jumps over the lazy dog again.'')"
  by code_simp

text \<open>
  Claim C5, amended.  A candidate is accepted exactly when it returns a non-empty
  segment sequence whose texts, joined with single spaces and trimmed, have at least 50
  characters; a call that throws or returns nothing or an empty sequence is rejected.
  The run returns the text of the first accepted candidate and stops there; after a
  rejected candidate the next one in the list is requested.  A joined text that has
  exactly 50 characters after trimming is accepted, one that has 49 characters after
  trimming is rejected: also the one of the two segments \<open>''\<close> and 49 characters, which
  has 50 characters before trimming and is rejected in all four calls.
\<close>

theorem caption_fetch_acceptance:
  "accepted (Returns (Val (map Val its))) =
     (its \<noteq> [] \<and> 50 \<le> length (trim (join '' '' (map (\<lambda>it. element_string (raw_text it)) its))))
   \<and> \<not> accepted (Throws m) \<and> \<not> accepted (Returns Undefined) \<and> \<not> accepted (Returns Null)
   \<and> \<not> accepted (Returns (Val []))
   \<and> (k < 4 \<and> (\<forall>j<k. \<not> accepted (fetch (requests ! j))) \<longrightarrow>
        (accepted (fetch (requests ! k)) \<longrightarrow>
           fetch_captions fetch =
             (take (Suc k) requests, Inr (the (candidate_text (fetch (requests ! k))))))
      \<and> (\<not> accepted (fetch (requests ! k)) \<and> k < 3 \<longrightarrow>
           prefix (take (Suc (Suc k)) requests) (fst (fetch_captions fetch)))
      \<and> (\<not> accepted (fetch (requests ! k)) \<and> k = 3 \<longrightarrow>
           fst (fetch_captions fetch) = requests \<and> (\<exists>msg. snd (fetch_captions fetch) = Inl msg)))
   \<and> accepted (one_segment ''The quick brown fox jumps over the lazy dog again.'')
   \<and> \<not> accepted (one_segment ''The quick brown fox jumps over the lazy dog again'')
   \<and> length (join '' '' ['''', ''The quick brown fox jumps over the lazy dog again'']) = 50
   \<and> length (trim (join '' '' ['''', ''The quick brown fox jumps over the lazy dog again''])) = 49
   \<and> \<not> accepted (two_segments '''' ''The quick brown fox jumps over the lazy dog again'')
   \<and> fetch_captions (fetch_table [] (two_segments '''' ''The quick brown fox jumps over the lazy dog again''))
       = ([Some ''en'', Some ''en-US'', Some ''en-GB'', None],
          Inl ''Failed to fetch transcript. The video may not have captions available. Last error: Transcript is too short'')"
proof (intro conjI impI)
  show "accepted (Returns (Val (map Val its))) =
     (its \<noteq> [] \<and> 50 \<le> length (trim (join '' '' (map (\<lambda>it. element_string (raw_text it)) its))))"
    by (simp add: accepted_def candidate_text_segments)
  show "\<not> accepted (Throws m)" "\<not> accepted (Returns Undefined)" "\<not> accepted (Returns Null)"
    "\<not> accepted (Returns (Val []))"
    by (simp_all add: accepted_def candidate_text_def)
  show "accepted (one_segment ''The quick brown fox jumps over the lazy dog again.'')"
    unfolding accepted_one_segment by code_simp
  show "\<not> accepted (one_segment ''The quick brown fox jumps over the lazy dog again'')"
    unfolding accepted_one_segment by code_simp
  show "length (join '' '' ['''', ''The quick brown fox jumps over the lazy dog again'']) = 50"
    by code_simp
  show "length (trim (join '' '' ['''', ''The quick brown fox jumps over the lazy dog again''])) = 49"
    by code_simp
  show "\<not> accepted (two_segments '''' ''The quick brown fox jumps over the lazy dog again'')"
    by code_simp
  show "fetch_captions (fetch_table [] (two_segments '''' ''The quick brown fox jumps over the lazy dog again''))
       = ([Some ''en'', Some ''en-US'', Some ''en-GB'', None],
          Inl ''Failed to fetch transcript. The video may not have captions available. Last error: Transcript is too short'')"
    by code_simp
next
  assume h: "k < 4 \<and> (\<forall>j<k. \<not> accepted (fetch (requests ! j)))"
    and a: "accepted (fetch (requests ! k))"
  from h a show "fetch_captions fetch =
      (take (Suc k) requests, Inr (the (candidate_text (fetch (requests ! k)))))"
    by (intro fetch_captions_accepted) simp_all
next
  assume h: "k < 4 \<and> (\<forall>j<k. \<not> accepted (fetch (requests ! j)))"
    and r: "\<not> accepted (fetch (requests ! k)) \<and> k < 3"
  from h r have "\<forall>j\<le>k. \<not> accepted (fetch (requests ! j))"
    by (auto simp: le_less)
  with r show "prefix (take (Suc (Suc k)) requests) (fst (fetch_captions fetch))"
    by (intro next_candidate_attempted) simp_all
next
  assume h: "k < 4 \<and> (\<forall>j<k. \<not> accepted (fetch (requests ! j)))"
    and r: "\<not> accepted (fetch (requests ! k)) \<and> k = 3"
  from h r have none: "\<forall>j<4. \<not> accepted (fetch (requests ! j))"
    by (auto simp: less_Suc_eq numeral_eq_Suc)
  from fetch_captions_rejected[OF none]
  show "fst (fetch_captions fetch) = requests" "\<exists>msg. snd (fetch_captions fetch) = Inl msg"
    by simp_all
qed

theorem caption_fetch_acceptance_witness:
  "(1::nat) < 4
   \<and> \<not> accepted (fetch_table [(Some ''en'', one_segment ''The quick brown fox jumps over the lazy dog again'')]
                    (one_segment ''The quick brown fox jumps over the lazy dog again.'') (requests ! 0))
   \<and> accepted (fetch_table [(Some ''en'', one_segment ''The quick brown fox jumps over the lazy dog again'')]
                    (one_segment ''The quick brown fox jumps over the lazy dog again.'') (requests ! 1))
   \<and> fetch_captions
        (fetch_table [(Some ''en'', one_segment ''The quick brown fox jumps over the lazy dog again'')]
           (one_segment ''The quick brown fox jumps over the lazy dog again.''))
      = ([Some ''en'', Some ''en-US''], Inr ''The quick brown fox jumps over the lazy dog again.'')"
proof -
  let ?t49 = "''The quick brown fox jumps over the lazy dog again''"
  let ?t50 = "''The quick brown fox jumps over the lazy dog again.''"
  let ?fetch = "fetch_table [(Some ''en'', one_segment ?t49)] (one_segment ?t50)"
  have f0: "?fetch (requests ! 0) = one_segment ?t49"
    and f1: "?fetch (requests ! 1) = one_segment ?t50"
    by (simp_all add: fetch_table_def requests_def)
  have l49: "\<not> 50 \<le> length (trim ?t49)" and l50: "50 \<le> length (trim ?t50)" by code_simp+
  have r: "\<not> accepted (?fetch (requests ! 0))" unfolding f0 accepted_one_segment by (rule l49)
  have a: "accepted (?fetch (requests ! 1))" unfolding f1 accepted_one_segment by (rule l50)
  have h: "1 < (4::nat) \<and> (\<forall>j<1. \<not> accepted (?fetch (requests ! j)))" using r by simp
  from caption_fetch_acceptance[of _ _ 1 ?fetch] h a
  have "fetch_captions ?fetch = (take (Suc 1) requests, Inr (the (candidate_text (?fetch (requests ! 1)))))"
    by blast
  then have "fetch_captions ?fetch = ([Some ''en'', Some ''en-US''], Inr ?t50)"
    unfolding f1 candidate_text_one_segment by (simp add: requests_def)
  with r a show ?thesis by simp
qed

section \<open>The formatter's length check\<close>

lemma route_format_error_writes_nothing:
  "snd (route_format env vid response fs) = Inl msg \<Longrightarrow> fst (route_format env vid response fs) = fs"
  by (auto simp: route_format_def Let_def
           split: http_response.splits sum.splits js.splits option.splits if_splits)

lemma script_format_error_writes_nothing:
  "snd (script_format env vid arg response fs) = Inl msg
   \<Longrightarrow> fst (script_format env vid arg response fs) = fs"
  by (auto simp: script_format_def Let_def split: sum.splits js.splits if_splits)

lemma first_text_part_candidates:
  "first_text_part data = Some p \<Longrightarrow> \<exists>cs. candidates data = Val cs \<and> cs \<noteq> []"
  by (auto simp: first_text_part_def split: js.splits list.splits)

text \<open>
  Claim C6.  Let the call to the service succeed and the completion have the text \<open>t\<close>
  (in the route: the answer carries no error and \<open>t\<close> is the text of the first
  text-bearing part of the first candidate).  When \<open>t\<close>, trimmed, has fewer than 100
  characters, the route and the script fail with an error and leave the file system as
  it was; when it has 100 or more, they write exactly the trimmed text to the
  transcript path.  No error of either formatter writes anything.
\<close>

theorem formatter_length_check:
  "(first_text_part data = Some p \<and> part_text p = Val t
      \<and> (data_error data = Undefined \<or> data_error data = Null) \<longrightarrow>
        (length (trim t) < 100 \<longrightarrow>
           (\<exists>msg. route_format env vid (Ok (Inr data)) fs = (fs, Inl msg)))
      \<and> (100 \<le> length (trim t) \<longrightarrow>
           (\<exists>r. route_format env vid (Ok (Inr data)) fs =
              (fs\<lparr>directories := insert (path_join env [cwd env, ''youtube'', vid]) (directories fs),
                  files := (files fs)(path_join env [path_join env [cwd env, ''youtube'', vid], ''transcript.md'']
                              \<mapsto> trim t)\<rparr>,
               Inr r))))
   \<and> (length (trim t) < 100 \<longrightarrow>
        (\<exists>msg. script_format env vid arg (Inr (Val t)) fs = (fs, Inl msg)))
   \<and> (100 \<le> length (trim t) \<longrightarrow>
        (\<exists>path. script_format env vid arg (Inr (Val t)) fs =
           (fs\<lparr>directories := insert (path_dirname env path) (directories fs),
               files := (files fs)(path \<mapsto> trim t)\<rparr>,
            Inr path)))
   \<and> (\<forall>response msg. snd (route_format env vid response fs) = Inl msg \<longrightarrow>
         fst (route_format env vid response fs) = fs)
   \<and> (\<forall>response msg. snd (script_format env vid arg response fs) = Inl msg \<longrightarrow>
         fst (script_format env vid arg response fs) = fs)"
proof (intro conjI impI allI)
  assume h: "first_text_part data = Some p \<and> part_text p = Val t
      \<and> (data_error data = Undefined \<or> data_error data = Null)"
  then obtain cs where cs: "candidates data = Val cs" "cs \<noteq> []"
    using first_text_part_candidates by blast
  {
    assume short: "length (trim t) < 100"
    show "\<exists>msg. route_format env vid (Ok (Inr data)) fs = (fs, Inl msg)"
      using h cs short by (auto simp: route_format_def Let_def)
  }
  {
    assume long: "100 \<le> length (trim t)"
    then have "trim t \<noteq> []" by auto
    moreover from this have "t \<noteq> []" by (auto simp: trim_Nil)
    ultimately show "\<exists>r. route_format env vid (Ok (Inr data)) fs =
              (fs\<lparr>directories := insert (path_join env [cwd env, ''youtube'', vid]) (directories fs),
                  files := (files fs)(path_join env [path_join env [cwd env, ''youtube'', vid], ''transcript.md'']
                              \<mapsto> trim t)\<rparr>,
               Inr r)"
      using h cs long by (auto simp: route_format_def Let_def)
  }
next
  assume short: "length (trim t) < 100"
  then show "\<exists>msg. script_format env vid arg (Inr (Val t)) fs = (fs, Inl msg)"
    by (auto simp: script_format_def Let_def)
next
  assume long: "100 \<le> length (trim t)"
  then have "trim t \<noteq> []" by auto
  moreover from this have "t \<noteq> []" by (auto simp: trim_Nil)
  ultimately show "\<exists>path. script_format env vid arg (Inr (Val t)) fs =
           (fs\<lparr>directories := insert (path_dirname env path) (directories fs),
               files := (files fs)(path \<mapsto> trim t)\<rparr>,
            Inr path)"
    using long by (auto simp: script_format_def Let_def)
next
  fix response msg
  assume "snd (route_format env vid response fs) = Inl msg"
  then show "fst (route_format env vid response fs) = fs"
    by (rule route_format_error_writes_nothing)
next
  fix response msg
  assume "snd (script_format env vid arg response fs) = Inl msg"
  then show "fst (script_format env vid arg response fs) = fs"
    by (rule script_format_error_writes_nothing)
qed

theorem formatter_length_check_witness:
  "length (trim ('' '' @ replicate 99 CHR ''x'')) < 100
   \<and> (\<exists>msg. route_format example_env ''kCc8FmEb1nY'' (answer_with_text ('' '' @ replicate 99 CHR ''x'')) empty_fs
          = (empty_fs, Inl msg))
   \<and> 100 \<le> length (trim ('' '' @ replicate 100 CHR ''x''))
   \<and> (\<exists>r. route_format example_env ''kCc8FmEb1nY'' (answer_with_text ('' '' @ replicate 100 CHR ''x'')) empty_fs
          = (empty_fs\<lparr>directories :=
                        insert (path_join example_env [cwd example_env, ''youtube'', ''kCc8FmEb1nY''])
                          (directories empty_fs),
                      files := (files empty_fs)
                        (path_join example_env
                           [path_join example_env [cwd example_env, ''youtube'', ''kCc8FmEb1nY''],
                            ''transcript.md'']
                         \<mapsto> trim ('' '' @ replicate 100 CHR ''x''))\<rparr>,
             Inr r))
   \<and> trim ('' '' @ replicate 100 CHR ''x'') = replicate 100 CHR ''x''"
proof -
  let ?short = "'' '' @ replicate 99 CHR ''x''"
  let ?long = "'' '' @ replicate 100 CHR ''x''"
  have ts: "trim ?short = replicate 99 CHR ''x''" and tl: "trim ?long = replicate 100 CHR ''x''"
    by code_simp+
  have s: "length (trim ?short) < 100" and l: "100 \<le> length (trim ?long)"
    unfolding ts tl by simp_all
  have hyp: "first_text_part \<lparr>data_error = Undefined,
        candidates = Val [Val \<lparr>content = Val \<lparr>parts = Val [\<lparr>part_text = Val t\<rparr>]\<rparr>\<rparr>]\<rparr>
        = Some \<lparr>part_text = Val t\<rparr>
      \<and> part_text \<lparr>part_text = Val t\<rparr> = Val t
      \<and> (data_error \<lparr>data_error = Undefined,
            candidates = Val [Val \<lparr>content = Val \<lparr>parts = Val [\<lparr>part_text = Val t\<rparr>]\<rparr>\<rparr>]\<rparr> = Undefined
          \<or> data_error \<lparr>data_error = Undefined,
            candidates = Val [Val \<lparr>content = Val \<lparr>parts = Val [\<lparr>part_text = Val t\<rparr>]\<rparr>\<rparr>]\<rparr> = Null)"
    for t
    by (simp add: first_text_part_def)
  note a = mp[OF conjunct1[OF formatter_length_check[of _ _ ?short example_env "''kCc8FmEb1nY''" empty_fs]] hyp[of ?short]]
  note b = mp[OF conjunct1[OF formatter_length_check[of _ _ ?long example_env "''kCc8FmEb1nY''" empty_fs]] hyp[of ?long]]
  note a' = mp[OF conjunct1[OF a] s]
  note b' = mp[OF conjunct2[OF b] l]
  show ?thesis
    unfolding answer_with_text_def
    by (intro conjI s l a' b' tl)
qed

section \<open>Routing by file size\<close>

lemma file_size_over_ten_MB:
  "num_gt (num_div (Fin (real n)) (1024 * 1024)) 10 \<longleftrightarrow> 10 * 1024 * 1024 < n"
proof -
  have "10 < real n / (1024 * 1024) \<longleftrightarrow> 10 * (1024 * 1024) < real n"
    by (rule pos_less_divide_eq) simp
  then show ?thesis by simp
qed

lemma uploadToGCS_uri_nonempty: "uploadToGCS env f p c = (tr, Inr uri) \<Longrightarrow> uri \<noteq> []"
  by (auto simp: uploadToGCS_def Let_def split: if_splits option.splits)

lemma submit_audio_inline:
  assumes "length fileContent \<le> 10 * 1024 * 1024"
  shows "submit_audio env audioFile projectId fileContent =
        ([StatFile audioFile, ReadFile audioFile, PostRecognize (base64 env fileContent)],
         Inr (RecognizeRequest (base64 env fileContent)))"
proof -
  from assms have "\<not> num_gt (num_div (Fin (real (length fileContent))) (1024 * 1024)) 10"
    unfolding file_size_over_ten_MB by simp
  then show ?thesis by (simp add: submit_audio_def Let_def)
qed

lemma submit_audio_example_upload:
  assumes "10 * 1024 * 1024 < length fileContent"
  shows "submit_audio example_audio_env ''audio.mp3'' ''proj'' fileContent
       = ([StatFile ''audio.mp3'', GetBucket ''proj-speech-transcripts'', ReadFile ''audio.mp3'',
           UploadObject ''proj-speech-transcripts'' ''transcripts/1700000000000-audio.mp3'' fileContent,
           PostBatchRecognize ''gs://proj-speech-transcripts/transcripts/1700000000000-audio.mp3''],
          Inr (BatchRecognizeRequest ''gs://proj-speech-transcripts/transcripts/1700000000000-audio.mp3''))"
proof -
  have d: "dec_nat 1700000000000 = ''1700000000000''"
    by (simp add: dec_nat.simps digit_char_def)
  from assms have "num_gt (num_div (Fin (real (length fileContent))) (1024 * 1024)) 10"
    unfolding file_size_over_ten_MB .
  then show ?thesis
    by (simp add: submit_audio_def uploadToGCS_def Let_def example_audio_env_def d)
qed

lemma submit_audio_example_inline:
  assumes "length fileContent \<le> 10 * 1024 * 1024"
  shows "submit_audio example_audio_env ''audio.mp3'' ''proj'' fileContent
       = ([StatFile ''audio.mp3'', ReadFile ''audio.mp3'', PostRecognize ''QUJD''],
          Inr (RecognizeRequest ''QUJD''))"
  unfolding submit_audio_inline[OF assms] by (simp add: example_audio_env_def)

text \<open>
  Claim C4.  A file of at most 10 MB (\<open>10 * 1024 * 1024\<close> bytes) is read and posted to the
  inline endpoint, its content in base64 in the request; nothing is uploaded.  A larger
  file is uploaded first: when the upload succeeds, the batch request that follows
  carries the URI of the uploaded object, and when it fails, no recognition request is
  posted.  A file of exactly 10 MB goes inline, one of 10 MB plus one byte is uploaded.
\<close>

theorem submit_audio_routing:
  "(length fileContent \<le> 10 * 1024 * 1024 \<longrightarrow>
      submit_audio env audioFile projectId fileContent =
        ([StatFile audioFile, ReadFile audioFile, PostRecognize (base64 env fileContent)],
         Inr (RecognizeRequest (base64 env fileContent))))
   \<and> (10 * 1024 * 1024 < length fileContent \<longrightarrow>
        (\<forall>tr uri. uploadToGCS env audioFile projectId fileContent = (tr, Inr uri) \<longrightarrow>
            submit_audio env audioFile projectId fileContent =
              (StatFile audioFile # tr @ [PostBatchRecognize uri], Inr (BatchRecognizeRequest uri))
          \<and> (\<exists>bucket name. UploadObject bucket name fileContent \<in> set tr
                \<and> uri = ''gs://'' @ bucket @ ''/'' @ name))
      \<and> (\<forall>tr error. uploadToGCS env audioFile projectId fileContent = (tr, Inl error) \<longrightarrow>
            submit_audio env audioFile projectId fileContent = (StatFile audioFile # tr, Inl error)
          \<and> (\<forall>a\<in>set tr. \<forall>x. a \<noteq> PostBatchRecognize x \<and> a \<noteq> PostRecognize x)))
   \<and> submit_audio example_audio_env ''audio.mp3'' ''proj'' (replicate (10 * 1024 * 1024) CHR ''a'')
       = ([StatFile ''audio.mp3'', ReadFile ''audio.mp3'', PostRecognize ''QUJD''],
          Inr (RecognizeRequest ''QUJD''))
   \<and> submit_audio example_audio_env ''audio.mp3'' ''proj'' (replicate (10 * 1024 * 1024 + 1) CHR ''a'')
       = ([StatFile ''audio.mp3'', GetBucket ''proj-speech-transcripts'', ReadFile ''audio.mp3'',
           UploadObject ''proj-speech-transcripts'' ''transcripts/1700000000000-audio.mp3''
             (replicate (10 * 1024 * 1024 + 1) CHR ''a''),
           PostBatchRecognize ''gs://proj-speech-transcripts/transcripts/1700000000000-audio.mp3''],
          Inr (BatchRecognizeRequest ''gs://proj-speech-transcripts/transcripts/1700000000000-audio.mp3''))"
proof (intro conjI impI allI)
  assume "length fileContent \<le> 10 * 1024 * 1024"
  then show "submit_audio env audioFile projectId fileContent =
        ([StatFile audioFile, ReadFile audioFile, PostRecognize (base64 env fileContent)],
         Inr (RecognizeRequest (base64 env fileContent)))"
    by (rule submit_audio_inline)
next
  fix tr uri
  assume big: "10 * 1024 * 1024 < length fileContent"
    and up: "uploadToGCS env audioFile projectId fileContent = (tr, Inr uri)"
  from big have gt: "num_gt (num_div (Fin (real (length fileContent))) (1024 * 1024)) 10"
    unfolding file_size_over_ten_MB .
  from uploadToGCS_uri_nonempty[OF up] have "uri \<noteq> []" .
  with gt up show "submit_audio env audioFile projectId fileContent =
      (StatFile audioFile # tr @ [PostBatchRecognize uri], Inr (BatchRecognizeRequest uri))"
    by (simp add: submit_audio_def Let_def)
  from up show "\<exists>bucket name. UploadObject bucket name fileContent \<in> set tr
      \<and> uri = ''gs://'' @ bucket @ ''/'' @ name"
    by (auto simp: uploadToGCS_def Let_def split: if_splits option.splits)
next
  fix tr error
  assume big: "10 * 1024 * 1024 < length fileContent"
    and up: "uploadToGCS env audioFile projectId fileContent = (tr, Inl error)"
  from big have gt: "num_gt (num_div (Fin (real (length fileContent))) (1024 * 1024)) 10"
    unfolding file_size_over_ten_MB .
  with up show "submit_audio env audioFile projectId fileContent = (StatFile audioFile # tr, Inl error)"
    by (simp add: submit_audio_def Let_def)
  from up show "\<forall>a\<in>set tr. \<forall>x. a \<noteq> PostBatchRecognize x \<and> a \<noteq> PostRecognize x"
    by (auto simp: uploadToGCS_def Let_def split: if_splits option.splits)
next
  have "length (replicate (10 * 1024 * 1024) CHR ''a'') \<le> 10 * 1024 * 1024"
    by (simp only: length_replicate order_refl)
  then show "submit_audio example_audio_env ''audio.mp3'' ''proj'' (replicate (10 * 1024 * 1024) CHR ''a'')
       = ([StatFile ''audio.mp3'', ReadFile ''audio.mp3'', PostRecognize ''QUJD''],
          Inr (RecognizeRequest ''QUJD''))"
    by (rule submit_audio_example_inline)
next
  have "10 * 1024 * 1024 < length (replicate (10 * 1024 * 1024 + 1) CHR ''a'')"
    by (simp only: length_replicate less_add_one)
  then show "submit_audio example_audio_env ''audio.mp3'' ''proj'' (replicate (10 * 1024 * 1024 + 1) CHR ''a'')
       = ([StatFile ''audio.mp3'', GetBucket ''proj-speech-transcripts'', ReadFile ''audio.mp3'',
           UploadObject ''proj-speech-transcripts'' ''transcripts/1700000000000-audio.mp3''
             (replicate (10 * 1024 * 1024 + 1) CHR ''a''),
           PostBatchRecognize ''gs://proj-speech-transcripts/transcripts/1700000000000-audio.mp3''],
          Inr (BatchRecognizeRequest ''gs://proj-speech-transcripts/transcripts/1700000000000-audio.mp3''))"
    by (rule submit_audio_example_upload)
qed

lemma uploadToGCS_example:
  "uploadToGCS example_audio_env ''audio.mp3'' ''proj'' fileContent
     = ([GetBucket ''proj-speech-transcripts'', ReadFile ''audio.mp3'',
         UploadObject ''proj-speech-transcripts'' ''transcripts/1700000000000-audio.mp3'' fileContent],
        Inr ''gs://proj-speech-transcripts/transcripts/1700000000000-audio.mp3'')"
proof -
  have d: "dec_nat 1700000000000 = ''1700000000000''"
    by (simp add: dec_nat.simps digit_char_def)
  show ?thesis
    by (simp add: uploadToGCS_def Let_def example_audio_env_def d)
qed

lemma uploadToGCS_example_failure:
  "uploadToGCS (example_audio_env\<lparr>upload_failure := Some ''Forbidden''\<rparr>) ''audio.mp3'' ''proj'' fileContent
     = ([GetBucket ''proj-speech-transcripts'', ReadFile ''audio.mp3'',
         UploadObject ''proj-speech-transcripts'' ''transcripts/1700000000000-audio.mp3'' fileContent],
        Inl ''Failed to upload to GCS: Forbidden'')"
proof -
  have d: "dec_nat 1700000000000 = ''1700000000000''"
    by (simp add: dec_nat.simps digit_char_def)
  show ?thesis
    by (simp add: uploadToGCS_def Let_def example_audio_env_def d)
qed

theorem submit_audio_routing_witness:
  "length ''ID3'' \<le> 10 * 1024 * 1024
   \<and> submit_audio example_audio_env ''audio.mp3'' ''proj'' ''ID3''
       = ([StatFile ''audio.mp3'', ReadFile ''audio.mp3'',
           PostRecognize (base64 example_audio_env ''ID3'')],
          Inr (RecognizeRequest (base64 example_audio_env ''ID3'')))
   \<and> 10 * 1024 * 1024 < length (replicate (10 * 1024 * 1024 + 1) CHR ''a'')
   \<and> submit_audio example_audio_env ''audio.mp3'' ''proj'' (replicate (10 * 1024 * 1024 + 1) CHR ''a'')
       = (StatFile ''audio.mp3''
            # [GetBucket ''proj-speech-transcripts'', ReadFile ''audio.mp3'',
               UploadObject ''proj-speech-transcripts'' ''transcripts/1700000000000-audio.mp3''
                 (replicate (10 * 1024 * 1024 + 1) CHR ''a'')]
            @ [PostBatchRecognize ''gs://proj-speech-transcripts/transcripts/1700000000000-audio.mp3''],
          Inr (BatchRecognizeRequest ''gs://proj-speech-transcripts/transcripts/1700000000000-audio.mp3''))
   \<and> submit_audio (example_audio_env\<lparr>upload_failure := Some ''Forbidden''\<rparr>) ''audio.mp3'' ''proj''
         (replicate (10 * 1024 * 1024 + 1) CHR ''a'')
       = (StatFile ''audio.mp3''
            # [GetBucket ''proj-speech-transcripts'', ReadFile ''audio.mp3'',
               UploadObject ''proj-speech-transcripts'' ''transcripts/1700000000000-audio.mp3''
                 (replicate (10 * 1024 * 1024 + 1) CHR ''a'')],
          Inl ''Failed to upload to GCS: Forbidden'')"
proof -
  let ?big = "replicate (10 * 1024 * 1024 + 1) CHR ''a''"
  have small: "length ''ID3'' \<le> 10 * 1024 * 1024" by simp
  have big: "10 * 1024 * 1024 < length ?big"
    by (simp only: length_replicate less_add_one)
  note inline = mp[OF conjunct1[OF submit_audio_routing[of "''ID3''" example_audio_env "''audio.mp3''" "''proj''"]] small]
  note up = mp[OF conjunct1[OF conjunct2[OF submit_audio_routing[of ?big example_audio_env "''audio.mp3''" "''proj''"]]] big]
  note ok = conjunct1[OF mp[OF spec[OF spec[OF conjunct1[OF up]]] uploadToGCS_example[of ?big]]]
  note down = mp[OF conjunct1[OF conjunct2[OF submit_audio_routing[of ?big
        "example_audio_env\<lparr>upload_failure := Some ''Forbidden''\<rparr>" "''audio.mp3''" "''proj''"]]] big]
  note failed = conjunct1[OF mp[OF spec[OF spec[OF conjunct2[OF down]]] uploadToGCS_example_failure[of ?big]]]
  show ?thesis
    by (intro conjI small big inline ok failed)
qed

section \<open>Parsing end offsets\<close>

lemma is_digit_simps:
  assumes "is_digit c"
  shows "\<not> is_space c" "c \<noteq> CHR ''+''" "c \<noteq> CHR ''-''" "c \<noteq> CHR ''.''" "c \<noteq> CHR ''s''"
    "c \<noteq> CHR ''I''" "c \<noteq> CHR ''e''" "c \<noteq> CHR ''E''" "c \<notin> set ''xXoObB''"
  using assms by (auto simp: is_digit_def is_space_def)

lemma not_digit_dot: "\<not> is_digit CHR ''.''"
  by (simp add: is_digit_def)

lemma scan_exponent_Nil: "scan_exponent [] = None"
  by (simp add: scan_exponent_def)

lemma scan_unsigned_fraction:
  assumes "ip \<noteq> []" and "list_all is_digit ip" and "list_all is_digit fp"
  shows "scan_unsigned (ip @ ''.'' @ fp)
       = Some (Fin (real (digits_value ip) + real (digits_value fp) / 10 ^ length fp), [])"
proof -
  from assms(1) obtain d ip' where ip: "ip = d # ip'" by (cases ip) auto
  with assms(2) have d: "is_digit d" by simp
  have all_ip: "\<And>x. x \<in> set ip \<Longrightarrow> is_digit x" and all_fp: "\<And>x. x \<in> set fp \<Longrightarrow> is_digit x"
    using assms(2,3) by (auto simp: list_all_iff)
  have no_inf: "\<not> prefix ''Infinity'' (ip @ ''.'' @ fp)"
    using is_digit_simps(6)[OF d] by (simp add: ip)
  have tw: "takeWhile is_digit (ip @ ''.'' @ fp) = ip"
    using all_ip by (simp add: not_digit_dot)
  have dw: "dropWhile is_digit (ip @ ''.'' @ fp) = ''.'' @ fp"
    using all_ip by (simp add: not_digit_dot)
  have tf: "takeWhile is_digit fp = fp" and df: "dropWhile is_digit fp = []"
    using all_fp by simp_all
  show ?thesis
    unfolding scan_unsigned_def Let_def tw dw
    using no_inf assms(1) by (simp add: tf df scan_exponent_Nil)
qed

lemma scan_unsigned_integer:
  assumes "ip \<noteq> []" and "list_all is_digit ip"
  shows "scan_unsigned ip = Some (Fin (real (digits_value ip)), [])"
proof -
  from assms(1) obtain d ip' where ip: "ip = d # ip'" by (cases ip) auto
  with assms(2) have d: "is_digit d" by simp
  have all_ip: "\<And>x. x \<in> set ip \<Longrightarrow> is_digit x"
    using assms(2) by (auto simp: list_all_iff)
  have no_inf: "\<not> prefix ''Infinity'' ip"
    using is_digit_simps(6)[OF d] by (simp add: ip)
  have tw: "takeWhile is_digit ip = ip" and dw: "dropWhile is_digit ip = []"
    using all_ip by simp_all
  show ?thesis
    unfolding scan_unsigned_def Let_def tw dw
    using no_inf assms(1) by (simp add: scan_exponent_Nil digits_value_def)
qed

lemma scan_signed_digit:
  assumes "s \<noteq> []" and "is_digit (hd s)"
  shows "scan_signed s = scan_unsigned s"
  using assms is_digit_simps(2,3)[OF assms(2)] by (simp add: scan_signed_def)

lemma dropWhile_space_digit:
  assumes "s \<noteq> []" and "is_digit (hd s)"
  shows "dropWhile is_space s = s"
  using assms is_digit_simps(1)[OF assms(2)] by (cases s) simp_all

lemma parseFloat_fraction:
  assumes "ip \<noteq> []" and "list_all is_digit ip" and "list_all is_digit fp"
  shows "parseFloat (ip @ ''.'' @ fp) = Fin (real (digits_value ip) + real (digits_value fp) / 10 ^ length fp)"
proof -
  from assms(1,2) have h: "ip @ ''.'' @ fp \<noteq> []" "is_digit (hd (ip @ ''.'' @ fp))"
    by (cases ip; simp)+
  show ?thesis
    unfolding parseFloat_def dropWhile_space_digit[OF h] scan_signed_digit[OF h]
      scan_unsigned_fraction[OF assms]
    by simp
qed

lemma parseFloat_integer:
  assumes "ip \<noteq> []" and "list_all is_digit ip"
  shows "parseFloat ip = Fin (real (digits_value ip))"
proof -
  from assms have h: "ip \<noteq> []" "is_digit (hd ip)"
    by (cases ip; simp)+
  show ?thesis
    unfolding parseFloat_def dropWhile_space_digit[OF h] scan_signed_digit[OF h]
      scan_unsigned_integer[OF assms]
    by simp
qed

lemma remove1_suffix_s:
  assumes "list_all is_digit ip" and "list_all is_digit fp"
  shows "remove1 CHR ''s'' (ip @ ''.'' @ fp @ ''s'') = ip @ ''.'' @ fp"
    and "remove1 CHR ''s'' (ip @ ''s'') = ip"
proof -
  have "CHR ''s'' \<notin> set ip" "CHR ''s'' \<notin> set fp"
    using assms is_digit_simps(5) by (auto simp: list_all_iff)
  then show "remove1 CHR ''s'' (ip @ ''.'' @ fp @ ''s'') = ip @ ''.'' @ fp"
    and "remove1 CHR ''s'' (ip @ ''s'') = ip"
    by (simp_all add: remove1_append)
qed

lemma trim_digits:
  assumes "ds \<noteq> []" and "list_all is_digit ds"
  shows "trim ds = ds"
proof -
  from assms have h: "ds \<noteq> []" "is_digit (hd ds)" by (cases ds; simp)+
  from assms have "rev ds \<noteq> []" "is_digit (hd (rev ds))"
    by (simp_all add: hd_rev list_all_iff)
  then have "dropWhile is_space (rev ds) = rev ds" by (rule dropWhile_space_digit)
  then show ?thesis
    unfolding trim_def dropWhile_space_digit[OF h] by simp
qed

lemma StringToNumber_digits:
  assumes "ds \<noteq> []" and "list_all is_digit ds"
  shows "StringToNumber ds = Fin (real (digits_value ds))"
proof -
  from assms have h: "ds \<noteq> []" "is_digit (hd ds)" by (cases ds; simp)+
  have "ds ! 1 \<notin> set ''xXoObB''" if "2 < length ds"
  proof -
    from that assms(2) have "is_digit (ds ! 1)" by (simp add: list_all_length)
    then show ?thesis by (rule is_digit_simps(9))
  qed
  then have no_radix: "\<not> (2 < length ds \<and> hd ds = CHR ''0'' \<and> ds ! 1 \<in> set ''xXoObB'')"
    by blast
  show ?thesis
    unfolding StringToNumber_def Let_def trim_digits[OF assms] if_not_P[OF no_radix]
      scan_signed_digit[OF h] scan_unsigned_integer[OF assms]
    using assms(1) by simp
qed

lemma end_secs_encodings:
  assumes "ip \<noteq> []" and "list_all is_digit ip" and "list_all is_digit fp"
  shows "end_secs (OffsetString (ip @ ''.'' @ fp @ ''s''))
       = Fin (real (digits_value ip) + real (digits_value fp) / 10 ^ length fp)"
    and "end_secs (OffsetString (ip @ ''s'')) = Fin (real (digits_value ip))"
    and "end_secs (OffsetObject (PStr ip) (PNum (Fin nanos)))
       = Fin (real (digits_value ip) + nanos / 1000000000)"
proof -
  have ne: "ip @ ''.'' @ fp @ ''s'' \<noteq> []" "ip @ ''s'' \<noteq> []" by simp_all
  show "end_secs (OffsetString (ip @ ''.'' @ fp @ ''s''))
       = Fin (real (digits_value ip) + real (digits_value fp) / 10 ^ length fp)"
    unfolding end_secs.simps remove1_suffix_s[OF assms(2,3)] parseFloat_fraction[OF assms]
      if_not_P[OF ne(1)] ..
  show "end_secs (OffsetString (ip @ ''s'')) = Fin (real (digits_value ip))"
    unfolding end_secs.simps remove1_suffix_s[OF assms(2,3)] parseFloat_integer[OF assms(1,2)]
      if_not_P[OF ne(2)] ..
  show "end_secs (OffsetObject (PStr ip) (PNum (Fin nanos)))
       = Fin (real (digits_value ip) + nanos / 1000000000)"
    using assms(1) by (simp add: or_zero_def StringToNumber_digits[OF assms(1,2)])
qed

lemma end_secs_numbers:
  "end_secs (OffsetObject (PNum (Fin secs)) (PNum (Fin nanos))) = Fin (secs + nanos / 1000000000)"
  by (simp add: or_zero_def)

section \<open>The reconstructed timeline\<close>

lemma process_result_skip:
  "first_alternative r = None \<Longrightarrow> process_result st r = st"
  by (simp add: process_result_def)

lemma process_result_push:
  assumes "first_alternative r = Some a"
  shows "segments (process_result st r) = segments st @
           [\<lparr>si_text = or_empty (alt_transcript a), si_start = lastEndTime st,
             si_end = end_secs (resultEndOffset r),
             si_confidence = confidence_or_zero (alt_confidence a)\<rparr>]"
    and "lastEndTime (process_result st r) = end_secs (resultEndOffset r)"
  using assms by (simp_all add: process_result_def Let_def)

lemma process_result_timeline:
  assumes last: "lastEndTime st = (if segments st = [] then Fin 0 else si_end (last (segments st)))"
    and cont: "\<forall>i<length (segments st). si_start (segments st ! i)
                 = (if i = 0 then Fin 0 else si_end (segments st ! (i - 1)))"
  shows "lastEndTime (process_result st r)
           = (if segments (process_result st r) = [] then Fin 0
              else si_end (last (segments (process_result st r))))
       \<and> (\<forall>i<length (segments (process_result st r)). si_start (segments (process_result st r) ! i)
             = (if i = 0 then Fin 0 else si_end (segments (process_result st r) ! (i - 1))))"
proof (cases "first_alternative r")
  case None
  with last cont show ?thesis by (simp add: process_result_skip)
next
  case (Some a)
  define seg where "seg = \<lparr>si_text = or_empty (alt_transcript a), si_start = lastEndTime st,
             si_end = end_secs (resultEndOffset r),
             si_confidence = confidence_or_zero (alt_confidence a)\<rparr>"
  have segs: "segments (process_result st r) = segments st @ [seg]"
    and le: "lastEndTime (process_result st r) = si_end seg"
    using process_result_push[OF Some, of st] by (simp_all add: seg_def)
  have start: "si_start seg = lastEndTime st" by (simp add: seg_def)
  have "si_start ((segments st @ [seg]) ! i)
      = (if i = 0 then Fin 0 else si_end ((segments st @ [seg]) ! (i - 1)))"
    if "i < length (segments st @ [seg])" for i
  proof (cases "i < length (segments st)")
    case True
    with cont show ?thesis by (auto simp: nth_append)
  next
    case False
    with that have i: "i = length (segments st)" by simp
    show ?thesis
    proof (cases "segments st = []")
      case True
      with i last start show ?thesis by simp
    next
      case ne: False
      then have "last (segments st) = segments st ! (length (segments st) - 1)"
        by (rule last_conv_nth)
      with i last start ne show ?thesis by (simp add: nth_append)
    qed
  qed
  then show ?thesis unfolding segs le by simp
qed

lemma foldl_timeline:
  assumes "lastEndTime st = (if segments st = [] then Fin 0 else si_end (last (segments st)))"
    and "\<forall>i<length (segments st). si_start (segments st ! i)
                 = (if i = 0 then Fin 0 else si_end (segments st ! (i - 1)))"
  shows "\<forall>i<length (segments (foldl process_result st rs)).
           si_start (segments (foldl process_result st rs) ! i)
             = (if i = 0 then Fin 0 else si_end (segments (foldl process_result st rs) ! (i - 1)))"
  using assms
proof (induction rs arbitrary: st)
  case Nil
  then show ?case by simp
next
  case (Cons r rs)
  from process_result_timeline[OF Cons.prems, of r]
  show ?case by (simp only: foldl_Cons) (rule Cons.IH, simp_all)
qed

lemma foldl_ends:
  "map si_end (segments (foldl process_result st rs))
     = map si_end (segments st)
       @ map (\<lambda>r. end_secs (resultEndOffset r)) (filter (\<lambda>r. first_alternative r \<noteq> None) rs)"
proof (induction rs arbitrary: st)
  case Nil
  then show ?case by simp
next
  case (Cons r rs)
  show ?case
  proof (cases "first_alternative r")
    case None
    then show ?thesis by (simp add: Cons.IH process_result_skip)
  next
    case (Some a)
    then show ?thesis by (simp add: Cons.IH process_result_push)
  qed
qed

lemma process_results_timeline:
  "\<forall>i<length (segments (process_results results)).
     si_start (segments (process_results results) ! i)
       = (if i = 0 then Fin 0 else si_end (segments (process_results results) ! (i - 1)))"
  unfolding process_results_def by (rule foldl_timeline) simp_all

lemma process_results_ends:
  "map si_end (segments (process_results results))
     = map (\<lambda>r. end_secs (resultEndOffset r)) (filter (\<lambda>r. first_alternative r \<noteq> None) results)"
  unfolding process_results_def by (simp add: foldl_ends)

lemma process_results_intervals:
  assumes ends: "map si_end (segments (process_results results)) = map Fin xs"
    and sorted: "sorted xs" and nonneg: "\<forall>x\<in>set xs. 0 \<le> x"
    and i: "i < length (segments (process_results results))"
  shows "\<exists>a b. si_start (segments (process_results results) ! i) = Fin a
           \<and> si_end (segments (process_results results) ! i) = Fin b \<and> a \<le> b"
proof -
  let ?segs = "segments (process_results results)"
  from ends have len: "length ?segs = length xs" by (metis length_map)
  have e: "si_end (?segs ! j) = Fin (xs ! j)" if "j < length xs" for j
  proof -
    from that len have "map si_end ?segs ! j = si_end (?segs ! j)" by simp
    with ends that show ?thesis by simp
  qed
  from process_results_timeline i
  have st: "si_start (?segs ! i) = (if i = 0 then Fin 0 else si_end (?segs ! (i - 1)))" by blast
  show ?thesis
  proof (cases "i = 0")
    case True
    with st e[of i] i len nonneg show ?thesis by auto
  next
    case False
    with i len have "xs ! (i - 1) \<le> xs ! i"
      using sorted by (intro sorted_nth_mono) simp_all
    with False st e[of i] e[of "i - 1"] i len show ?thesis by auto
  qed
qed

text \<open>
  Claim C2, as stated, fails: the emitted segments need not be a non-overlapping
  partition of the timeline.  Take three results with one alternative each, the first
  ending at \<open>5s\<close>, the second without \<open>resultEndOffset\<close> and the third ending at \<open>7.0s\<close>.
  The end of the second segment stays at its initial value 0, so the second segment
  runs from 5 back to 0, and the third one, from 0 to 7, covers the first one, from 0
  to 5, again.
\<close>

theorem speech_segments_overlap:
  "segments (process_results
      [result_ending ''a'' ''5s'',
       \<lparr>alternatives = Val [Val \<lparr>alt_transcript = Val ''b'', alt_confidence = Val (Fin (9 / 10))\<rparr>],
        resultEndOffset = NoOffset\<rparr>,
       result_ending ''c'' ''7.0s''])
   = [\<lparr>si_text = ''a'', si_start = Fin 0, si_end = Fin 5, si_confidence = Fin (9 / 10)\<rparr>,
      \<lparr>si_text = ''b'', si_start = Fin 5, si_end = Fin 0, si_confidence = Fin (9 / 10)\<rparr>,
      \<lparr>si_text = ''c'', si_start = Fin 0, si_end = Fin 7, si_confidence = Fin (9 / 10)\<rparr>]"
  by code_simp

text \<open>
  Claim C2, amended.  For every list of recognition results, the emitted segments are
  contiguous: the first one starts at 0 and every later one starts where the one
  before ends; results without an alternative emit nothing.  The end of a segment is
  the parsed end offset of its result: a decimal number followed by \<open>s\<close>, or seconds plus
  nanos divided by \<open>10^9\<close>, and 0 when the result has no end offset.  The segments are
  intervals that do not overlap (every start is at most its end) when these ends are
  finite, non-negative and non-decreasing, which the code does not check.  The offsets
  \<open>3.500s\<close> and \<open>7.0s\<close> give the segments from 0 to 3.5 and from 3.5 to 7, also when a
  result without alternatives lies between.
\<close>

theorem speech_segments_timeline:
  "(\<forall>i<length (segments (process_results results)).
       si_start (segments (process_results results) ! i)
         = (if i = 0 then Fin 0 else si_end (segments (process_results results) ! (i - 1))))
   \<and> map si_end (segments (process_results results))
       = map (\<lambda>r. end_secs (resultEndOffset r)) (filter (\<lambda>r. first_alternative r \<noteq> None) results)
   \<and> (map si_end (segments (process_results results)) = map Fin xs \<and> sorted xs
        \<and> (\<forall>x\<in>set xs. 0 \<le> x) \<longrightarrow>
       (\<forall>i<length (segments (process_results results)).
          \<exists>a b. si_start (segments (process_results results) ! i) = Fin a
             \<and> si_end (segments (process_results results) ! i) = Fin b \<and> a \<le> b))
   \<and> (ip \<noteq> [] \<and> list_all is_digit ip \<and> list_all is_digit fp \<longrightarrow>
        end_secs (OffsetString (ip @ ''.'' @ fp @ ''s''))
          = Fin (real (digits_value ip) + real (digits_value fp) / 10 ^ length fp)
      \<and> end_secs (OffsetString (ip @ ''s'')) = Fin (real (digits_value ip))
      \<and> end_secs (OffsetObject (PStr ip) (PNum (Fin nanos)))
          = Fin (real (digits_value ip) + nanos / 1000000000))
   \<and> end_secs (OffsetObject (PNum (Fin secs)) (PNum (Fin nanos))) = Fin (secs + nanos / 1000000000)
   \<and> end_secs NoOffset = Fin 0
   \<and> segments (process_results [result_ending ''a'' ''3.500s'', result_ending ''b'' ''7.0s''])
       = [\<lparr>si_text = ''a'', si_start = Fin 0, si_end = Fin (7 / 2), si_confidence = Fin (9 / 10)\<rparr>,
          \<lparr>si_text = ''b'', si_start = Fin (7 / 2), si_end = Fin 7, si_confidence = Fin (9 / 10)\<rparr>]
   \<and> segments (process_results
        [result_ending ''a'' ''3.500s'',
         \<lparr>alternatives = Undefined, resultEndOffset = OffsetString ''5s''\<rparr>,
         result_ending ''b'' ''7.0s''])
       = [\<lparr>si_text = ''a'', si_start = Fin 0, si_end = Fin (7 / 2), si_confidence = Fin (9 / 10)\<rparr>,
          \<lparr>si_text = ''b'', si_start = Fin (7 / 2), si_end = Fin 7, si_confidence = Fin (9 / 10)\<rparr>]"
proof (intro conjI)
  show "\<forall>i<length (segments (process_results results)).
       si_start (segments (process_results results) ! i)
         = (if i = 0 then Fin 0 else si_end (segments (process_results results) ! (i - 1)))"
    by (rule process_results_timeline)
  show "map si_end (segments (process_results results))
       = map (\<lambda>r. end_secs (resultEndOffset r)) (filter (\<lambda>r. first_alternative r \<noteq> None) results)"
    by (rule process_results_ends)
  show "map si_end (segments (process_results results)) = map Fin xs \<and> sorted xs
        \<and> (\<forall>x\<in>set xs. 0 \<le> x) \<longrightarrow>
       (\<forall>i<length (segments (process_results results)).
          \<exists>a b. si_start (segments (process_results results) ! i) = Fin a
             \<and> si_end (segments (process_results results) ! i) = Fin b \<and> a \<le> b)"
    using process_results_intervals[of results xs] by blast
  show "ip \<noteq> [] \<and> list_all is_digit ip \<and> list_all is_digit fp \<longrightarrow>
        end_secs (OffsetString (ip @ ''.'' @ fp @ ''s''))
          = Fin (real (digits_value ip) + real (digits_value fp) / 10 ^ length fp)
      \<and> end_secs (OffsetString (ip @ ''s'')) = Fin (real (digits_value ip))
      \<and> end_secs (OffsetObject (PStr ip) (PNum (Fin nanos)))
          = Fin (real (digits_value ip) + nanos / 1000000000)"
    using end_secs_encodings(1)[of ip fp] end_secs_encodings(2)[of ip fp]
      end_secs_encodings(3)[of ip fp nanos]
    by blast
  show "end_secs (OffsetObject (PNum (Fin secs)) (PNum (Fin nanos))) = Fin (secs + nanos / 1000000000)"
    by (rule end_secs_numbers)
  show "end_secs NoOffset = Fin 0"
    by simp
  show "segments (process_results [result_ending ''a'' ''3.500s'', result_ending ''b'' ''7.0s''])
       = [\<lparr>si_text = ''a'', si_start = Fin 0, si_end = Fin (7 / 2), si_confidence = Fin (9 / 10)\<rparr>,
          \<lparr>si_text = ''b'', si_start = Fin (7 / 2), si_end = Fin 7, si_confidence = Fin (9 / 10)\<rparr>]"
    by code_simp
  show "segments (process_results
        [result_ending ''a'' ''3.500s'',
         \<lparr>alternatives = Undefined, resultEndOffset = OffsetString ''5s''\<rparr>,
         result_ending ''b'' ''7.0s''])
       = [\<lparr>si_text = ''a'', si_start = Fin 0, si_end = Fin (7 / 2), si_confidence = Fin (9 / 10)\<rparr>,
          \<lparr>si_text = ''b'', si_start = Fin (7 / 2), si_end = Fin 7, si_confidence = Fin (9 / 10)\<rparr>]"
    by code_simp
qed

theorem speech_segments_timeline_witness:
  "1 < length (segments (process_results
         [result_ending ''a'' ''3.500s'',
          \<lparr>alternatives = Undefined, resultEndOffset = OffsetString ''5s''\<rparr>,
          result_ending ''b'' ''7.0s'']))
   \<and> si_start (segments (process_results
         [result_ending ''a'' ''3.500s'',
          \<lparr>alternatives = Undefined, resultEndOffset = OffsetString ''5s''\<rparr>,
          result_ending ''b'' ''7.0s'']) ! 1)
     = si_end (segments (process_results
         [result_ending ''a'' ''3.500s'',
          \<lparr>alternatives = Undefined, resultEndOffset = OffsetString ''5s''\<rparr>,
          result_ending ''b'' ''7.0s'']) ! 0)
   \<and> ''3'' \<noteq> [] \<and> list_all is_digit ''3'' \<and> list_all is_digit ''500''
   \<and> end_secs (OffsetString ''3.500s'') = Fin (7 / 2)
   \<and> end_secs (OffsetString ''3s'') = Fin 3
   \<and> end_secs (OffsetObject (PStr ''3'') (PNum (Fin 500000000))) = Fin (7 / 2)
   \<and> sorted [7 / 2, 7 :: real]
   \<and> (\<exists>a b. si_start (segments (process_results
         [result_ending ''a'' ''3.500s'',
          \<lparr>alternatives = Undefined, resultEndOffset = OffsetString ''5s''\<rparr>,
          result_ending ''b'' ''7.0s'']) ! 1) = Fin a
        \<and> si_end (segments (process_results
         [result_ending ''a'' ''3.500s'',
          \<lparr>alternatives = Undefined, resultEndOffset = OffsetString ''5s''\<rparr>,
          result_ending ''b'' ''7.0s'']) ! 1) = Fin b
        \<and> a \<le> b)"
proof -
  let ?ex = "[result_ending ''a'' ''3.500s'',
          \<lparr>alternatives = Undefined, resultEndOffset = OffsetString ''5s''\<rparr>,
          result_ending ''b'' ''7.0s'']"
  note t = speech_segments_timeline[where results = ?ex and xs = "[7 / 2, 7]"
      and ip = "''3''" and fp = "''500''" and nanos = 500000000]
  note A = conjunct1[OF t]
  note C = conjunct1[OF conjunct2[OF conjunct2[OF t]]]
  note D = conjunct1[OF conjunct2[OF conjunct2[OF conjunct2[OF t]]]]
  note G = conjunct2[OF conjunct2[OF conjunct2[OF conjunct2[OF conjunct2[OF conjunct2[OF conjunct2[OF t]]]]]]]
  have len: "1 < length (segments (process_results ?ex))" unfolding G by simp
  from A len have c: "si_start (segments (process_results ?ex) ! 1)
      = (if (1::nat) = 0 then Fin 0 else si_end (segments (process_results ?ex) ! (1 - 1)))"
    by blast
  then have c': "si_start (segments (process_results ?ex) ! 1) = si_end (segments (process_results ?ex) ! 0)"
    by simp
  have d: "''3'' \<noteq> [] \<and> list_all is_digit ''3'' \<and> list_all is_digit ''500''"
    by (simp add: is_digit_def)
  note E = mp[OF D d]
  have v3: "real (digits_value ''3'') = 3" and v500: "real (digits_value ''500'') = 500"
    by (simp_all add: digits_value_def digit_val_def)
  from E have p1: "end_secs (OffsetString ''3.500s'') = Fin (7 / 2)"
    and p2: "end_secs (OffsetString ''3s'') = Fin 3"
    and p3: "end_secs (OffsetObject (PStr ''3'') (PNum (Fin 500000000))) = Fin (7 / 2)"
    unfolding v3 v500 by simp_all
  have s: "map si_end (segments (process_results ?ex)) = map Fin [7 / 2, 7] \<and> sorted [7 / 2, 7 :: real]
      \<and> (\<forall>x\<in>set [7 / 2, 7 :: real]. 0 \<le> x)"
    unfolding G by simp
  from mp[OF C s] len
  have iv: "\<exists>a b. si_start (segments (process_results ?ex) ! 1) = Fin a
        \<and> si_end (segments (process_results ?ex) ! 1) = Fin b \<and> a \<le> b"
    by blast
  have so: "sorted [7 / 2, 7 :: real]" by simp
  from d have d1: "''3'' \<noteq> []" and d2: "list_all is_digit ''3''" and d3: "list_all is_digit ''500''"
    by blast+
  show ?thesis
    by (intro conjI len c' d1 d2 d3 p1 p2 p3 so iv)
qed

end
